theory Spec2Isabelle
  imports Main
begin

section \<open>Data model\<close>

text \<open>
  A JSON value as JavaScript sees it after \<open>JSON.parse\<close>. It is used for the
  image entries of a post, which the migration inspects with \<open>typeof\<close> and
  \<open>Array.isArray\<close>, and for the argument of \<open>getImageUrl\<close>.
\<close>

datatype jv = JNull | JBool bool | JNum int | JStr string | JArr "jv list"

text \<open>
  The four entities. Field names carry the entity as a prefix where the
  JavaScript property name (\<open>id\<close>, \<open>postId\<close>, \<open>userId\<close>, \<open>image\<close>) is shared
  between entities or taken by a HOL constant. A property that may be missing
  from the object is an \<open>option\<close>. The properties of a post that no modelled
  function reads are carried along in \<open>post_rest\<close>.
\<close>

record user =
  user_id :: string
  username :: string
  bio :: string
  user_createdAt :: string

record post =
  post_id :: string
  post_userId :: string
  post_images :: "jv option"
  post_image :: "jv option"
  post_rest :: "(string \<times> jv) list"

record comment =
  comment_id :: string
  comment_postId :: string
  comment_userId :: string
  comment_text :: string
  comment_createdAt :: string

record like =
  like_postId :: string
  like_userId :: string
  like_createdAt :: string

text \<open>
  \<open>localStorage\<close>, restricted to the five keys the program uses. A key that was
  never set is \<open>None\<close> (\<open>getItem\<close> returns \<open>null\<close>). Every value the program
  stores is \<open>JSON.stringify\<close> of a record or an array of records and is read
  back with \<open>JSON.parse\<close>; the model keeps the parsed value, so the text in
  between is not represented.
\<close>

record storage =
  architecture_log_users :: "user list option"
  architecture_log_posts :: "post list option"
  architecture_log_comments :: "comment list option"
  architecture_log_likes :: "like list option"
  current_user :: "user option"

definition empty_storage :: storage where
  "empty_storage =
     \<lparr>architecture_log_users = None, architecture_log_posts = None,
      architecture_log_comments = None, architecture_log_likes = None,
      current_user = None\<rparr>"

section \<open>JavaScript built-ins\<close>

text \<open>\<open>Array.prototype.findIndex\<close>: the first index whose element satisfies the
  predicate, \<open>-1\<close> when there is none.\<close>

fun findIndex :: "('a \<Rightarrow> bool) \<Rightarrow> 'a list \<Rightarrow> int" where
  "findIndex P [] = - 1"
| "findIndex P (x # xs) =
     (if P x then 0
      else (let i = findIndex P xs in if i < 0 then - 1 else i + 1))"

text \<open>\<open>arr.splice(i, 1)\<close> for an index inside the array.\<close>

definition splice1 :: "nat \<Rightarrow> 'a list \<Rightarrow> 'a list" where
  "splice1 i xs = take i xs @ drop (Suc i) xs"

text \<open>\<open>String.prototype.startsWith\<close>.\<close>

definition startsWith :: "string \<Rightarrow> string \<Rightarrow> bool" where
  "startsWith s pre = (take (length pre) s = pre)"

text \<open>The decimal rendering of a non-negative integer, as string concatenation
  with \<open>Date.now()\<close> produces it.\<close>

definition digit_char :: "nat \<Rightarrow> char" where
  "digit_char d = char_of (48 + d)"

fun show_nat :: "nat \<Rightarrow> string" where
  "show_nat n = (if n < 10 then [digit_char n] else show_nat (n div 10) @ [digit_char (n mod 10)])"

declare show_nat.simps [simp del]

section \<open>DataService\<close>

definition init :: "nat \<Rightarrow> string \<Rightarrow> storage \<Rightarrow> storage" where
  "init now isoTime s =
     (let s1 = (if architecture_log_users s = None
                then (let defaultUser = \<lparr>user_id = ''user_'' @ show_nat now,
                                          username = ''default'',
                                          bio = ''Architecture enthusiast'',
                                          user_createdAt = isoTime\<rparr>
                      in s\<lparr>architecture_log_users := Some [defaultUser]\<rparr>)
                else s);
          s2 = (if architecture_log_posts s1 = None
                then s1\<lparr>architecture_log_posts := Some []\<rparr> else s1);
          s3 = (if architecture_log_comments s2 = None
                then s2\<lparr>architecture_log_comments := Some []\<rparr> else s2)
      in (if architecture_log_likes s3 = None
          then s3\<lparr>architecture_log_likes := Some []\<rparr> else s3))"

definition getCurrentUser :: "storage \<Rightarrow> user option" where
  "getCurrentUser s = current_user s"

definition getUsers :: "storage \<Rightarrow> user list" where
  "getUsers s = (case architecture_log_users s of None \<Rightarrow> [] | Some us \<Rightarrow> us)"

definition saveUser :: "user \<Rightarrow> storage \<Rightarrow> storage" where
  "saveUser u s =
     (let users = getUsers s;
          existingIndex = findIndex (\<lambda>x. user_id x = user_id u) users;
          users' = (if 0 \<le> existingIndex then users[nat existingIndex := u]
                    else users @ [u])
      in s\<lparr>architecture_log_users := Some users'\<rparr>)"

definition setCurrentUser :: "user \<Rightarrow> storage \<Rightarrow> storage" where
  "setCurrentUser u s = saveUser u (s\<lparr>current_user := Some u\<rparr>)"

definition getPosts :: "storage \<Rightarrow> post list" where
  "getPosts s = (case architecture_log_posts s of None \<Rightarrow> [] | Some ps \<Rightarrow> ps)"

definition savePost :: "post \<Rightarrow> storage \<Rightarrow> storage" where
  "savePost p s =
     (let posts = getPosts s;
          existingIndex = findIndex (\<lambda>x. post_id x = post_id p) posts;
          posts' = (if 0 \<le> existingIndex then posts[nat existingIndex := p]
                    else posts @ [p])
      in s\<lparr>architecture_log_posts := Some posts'\<rparr>)"

text \<open>\<open>getComments(postId)\<close> and \<open>getLikes(postId)\<close> take an optional argument:
  \<open>None\<close> is the call without argument. The test \<open>if (postId)\<close> is JavaScript
  truthiness, which for a string means non-empty.\<close>

definition getComments :: "string option \<Rightarrow> storage \<Rightarrow> comment list" where
  "getComments postId s =
     (let allComments = (case architecture_log_comments s of None \<Rightarrow> [] | Some cs \<Rightarrow> cs)
      in case postId of
           None \<Rightarrow> allComments
         | Some p \<Rightarrow> if p \<noteq> [] then filter (\<lambda>c. comment_postId c = p) allComments
                     else allComments)"

definition saveComment :: "comment \<Rightarrow> storage \<Rightarrow> storage" where
  "saveComment c s = s\<lparr>architecture_log_comments := Some (getComments None s @ [c])\<rparr>"

definition getLikes :: "string option \<Rightarrow> storage \<Rightarrow> like list" where
  "getLikes postId s =
     (let allLikes = (case architecture_log_likes s of None \<Rightarrow> [] | Some ls \<Rightarrow> ls)
      in case postId of
           None \<Rightarrow> allLikes
         | Some p \<Rightarrow> if p \<noteq> [] then filter (\<lambda>l. like_postId l = p) allLikes
                     else allLikes)"

definition deletePost :: "string \<Rightarrow> storage \<Rightarrow> storage" where
  "deletePost postId s =
     (let posts = getPosts s;
          filtered = filter (\<lambda>p. post_id p \<noteq> postId) posts;
          s1 = s\<lparr>architecture_log_posts := Some filtered\<rparr>;
          comments = filter (\<lambda>c. comment_postId c \<noteq> postId) (getComments None s1);
          s2 = s1\<lparr>architecture_log_comments := Some comments\<rparr>;
          likes = filter (\<lambda>l. like_postId l \<noteq> postId) (getLikes None s2)
      in s2\<lparr>architecture_log_likes := Some likes\<rparr>)"

definition getUserPosts :: "string \<Rightarrow> storage \<Rightarrow> post list" where
  "getUserPosts userId s = filter (\<lambda>p. post_userId p = userId) (getPosts s)"

text \<open>\<open>toggleLike\<close> reads the clock for \<open>createdAt\<close>; the reading is the
  argument \<open>isoTime\<close>.\<close>

definition toggleLike :: "string \<Rightarrow> string \<Rightarrow> string \<Rightarrow> storage \<Rightarrow> storage" where
  "toggleLike postId userId isoTime s =
     (let likes = getLikes None s;
          existingIndex = findIndex (\<lambda>l. like_postId l = postId \<and> like_userId l = userId) likes;
          likes' = (if 0 \<le> existingIndex then splice1 (nat existingIndex) likes
                    else likes @ [\<lparr>like_postId = postId, like_userId = userId,
                                   like_createdAt = isoTime\<rparr>])
      in s\<lparr>architecture_log_likes := Some likes'\<rparr>)"

definition isLiked :: "string \<Rightarrow> string \<Rightarrow> storage \<Rightarrow> bool" where
  "isLiked postId userId s =
     (let likes = getLikes (Some postId) s
      in list_ex (\<lambda>l. like_userId l = userId) likes)"

section \<open>Blob store (IndexedDB)\<close>

text \<open>
  The content of an image file: its bytes.
\<close>

type_synonym blob = "nat list"

text \<open>
  What the program cannot decide itself is read from an environment. Every
  call of \<open>saveImageBlob\<close>, \<open>getImageBlob\<close> or \<open>deleteAllImages\<close> opens the
  database once; calls are numbered in the order they happen (\<open>idb_ops\<close> below)
  and the environment says, for each number, whether opening the database
  failed, the request on the object store failed, or the request completed,
  and what \<open>Date.now()\<close> and \<open>Math.random().toString(36).substr(2, 9)\<close> gave
  there. \<open>fetch_blob\<close> is \<open>fetch(dataUri)\<close> followed by \<open>response.blob()\<close>, \<open>None\<close>
  when either rejects. \<open>object_url\<close> is what the browser puts after \<open>blob:\<close> in
  the n-th URL made by \<open>URL.createObjectURL\<close>.
\<close>

datatype idb_outcome = OpenFailed | RequestFailed | Completed

datatype error = OpenError | RequestError | NotFound | FetchError

record env =
  idb_result :: "nat \<Rightarrow> idb_outcome"
  date_now :: "nat \<Rightarrow> nat"
  random36 :: "nat \<Rightarrow> string"
  fetch_blob :: "string \<Rightarrow> blob option"
  object_url :: "nat \<Rightarrow> string"

text \<open>The object store \<open>images\<close> of the database, and the number of
  operations started on the database so far.\<close>

record blobstore =
  objects :: "string \<rightharpoonup> blob"
  idb_ops :: nat

definition saveImageBlob :: "env \<Rightarrow> blob \<Rightarrow> blobstore \<Rightarrow> (error + string) \<times> blobstore" where
  "saveImageBlob e file db =
     (let n = idb_ops db; db' = db\<lparr>idb_ops := Suc n\<rparr>
      in case idb_result e n of
           OpenFailed \<Rightarrow> (Inl OpenError, db')
         | RequestFailed \<Rightarrow> (Inl RequestError, db')
         | Completed \<Rightarrow>
             (let imageId = ''img_'' @ show_nat (date_now e n) @ ''_'' @ random36 e n
              in (Inr imageId, db'\<lparr>objects := (objects db)(imageId \<mapsto> file)\<rparr>)))"

text \<open>The store holds string keys only, so a key that is not a string finds
  nothing (or is refused as a key); both reject the promise.\<close>

definition getImageBlob :: "env \<Rightarrow> jv \<Rightarrow> blobstore \<Rightarrow> (error + blob) \<times> blobstore" where
  "getImageBlob e imageId db =
     (let n = idb_ops db; db' = db\<lparr>idb_ops := Suc n\<rparr>
      in case idb_result e n of
           OpenFailed \<Rightarrow> (Inl OpenError, db')
         | RequestFailed \<Rightarrow> (Inl RequestError, db')
         | Completed \<Rightarrow>
             (case imageId of
                JStr k \<Rightarrow> (case objects db k of
                             Some b \<Rightarrow> (Inr b, db')
                           | None \<Rightarrow> (Inl NotFound, db'))
              | _ \<Rightarrow> (Inl NotFound, db')))"

definition deleteAllImages :: "env \<Rightarrow> blobstore \<Rightarrow> (error + unit) \<times> blobstore" where
  "deleteAllImages e db =
     (let n = idb_ops db; db' = db\<lparr>idb_ops := Suc n\<rparr>
      in case idb_result e n of
           OpenFailed \<Rightarrow> (Inl OpenError, db')
         | RequestFailed \<Rightarrow> (Inl RequestError, db')
         | Completed \<Rightarrow> (Inr (), db'\<lparr>objects := Map.empty\<rparr>))"

section \<open>Application state\<close>

text \<open>
  \<open>localStorage\<close>, the image database, the module-level \<open>imageUrlCache\<close> (a
  \<open>Map\<close>; the program only ever stores string keys in it), the number of object
  URLs made so far and the object URLs revoked so far.
\<close>

record app =
  local :: storage
  idb :: blobstore
  imageUrlCache :: "jv \<rightharpoonup> string"
  urls_created :: nat
  revoked :: "string set"

section \<open>Migration of inline images\<close>

text \<open>
  The local variables of \<open>migrateOldData\<close> that live across loop iterations:
  the database, \<open>migrationCount\<close>, and the number of times one of the two
  \<open>catch\<close> blocks inside the loop ran (each logs a "Failed to migrate" warning).
\<close>

record mig =
  mig_db :: blobstore
  migrationCount :: nat
  failed :: nat

text \<open>The body of both \<open>try\<close> blocks: fetch the data URI, take its blob, save
  the blob. Any of the three may throw.\<close>

definition fetch_and_save :: "env \<Rightarrow> string \<Rightarrow> blobstore \<Rightarrow> (error + string) \<times> blobstore" where
  "fetch_and_save e imageData db =
     (case fetch_blob e imageData of
        None \<Rightarrow> (Inl FetchError, db)
      | Some b \<Rightarrow> saveImageBlob e b db)"

text \<open>One iteration of the inner loop over \<open>post.images\<close>: the value pushed on
  \<open>newImageIds\<close> and the variables afterwards.\<close>

definition migrate_image :: "env \<Rightarrow> jv \<Rightarrow> mig \<Rightarrow> jv \<times> mig" where
  "migrate_image e imageData m =
     (case imageData of
        JStr d \<Rightarrow>
          (if startsWith d ''data:image'' then
             (case fetch_and_save e d (mig_db m) of
                (Inr imageId, db') \<Rightarrow>
                  (JStr imageId, m\<lparr>mig_db := db', migrationCount := migrationCount m + 1\<rparr>)
              | (Inl err, db') \<Rightarrow>
                  (imageData, m\<lparr>mig_db := db', failed := failed m + 1\<rparr>))
           else if startsWith d ''img_'' then (imageData, m)
           else (imageData, m))
      | _ \<Rightarrow> (imageData, m))"

fun migrate_images :: "env \<Rightarrow> jv list \<Rightarrow> mig \<Rightarrow> jv list \<times> mig" where
  "migrate_images e [] m = ([], m)"
| "migrate_images e (x # xs) m =
     (let (y, m1) = migrate_image e x m;
          (ys, m2) = migrate_images e xs m1
      in (y # ys, m2))"

text \<open>One iteration of the outer loop: the post as the loop leaves it.\<close>

definition migrate_post :: "env \<Rightarrow> post \<Rightarrow> mig \<Rightarrow> post \<times> mig" where
  "migrate_post e p m =
     (case post_images p of
        Some (JArr imgs) \<Rightarrow>
          (let (newImageIds, m') = migrate_images e imgs m
           in (p\<lparr>post_images := Some (JArr newImageIds)\<rparr>, m'))
      | _ \<Rightarrow>
          (case post_image p of
             Some (JStr d) \<Rightarrow>
               (if startsWith d ''data:image'' then
                  (case fetch_and_save e d (mig_db m) of
                     (Inr imageId, db') \<Rightarrow>
                       (p\<lparr>post_images := Some (JArr [JStr imageId]), post_image := None\<rparr>,
                        m\<lparr>mig_db := db', migrationCount := migrationCount m + 1\<rparr>)
                   | (Inl err, db') \<Rightarrow>
                       (p, m\<lparr>mig_db := db', failed := failed m + 1\<rparr>))
                else (p, m))
           | _ \<Rightarrow> (p, m)))"

fun migrate_posts :: "env \<Rightarrow> post list \<Rightarrow> mig \<Rightarrow> post list \<times> mig" where
  "migrate_posts e [] m = ([], m)"
| "migrate_posts e (p # ps) m =
     (let (q, m1) = migrate_post e p m;
          (qs, m2) = migrate_posts e ps m1
      in (q # qs, m2))"

text \<open>The loop of \<open>migrateOldData\<close> on the stored posts, from the initial values
  of its variables.\<close>

definition migration_run :: "env \<Rightarrow> app \<Rightarrow> post list \<times> mig" where
  "migration_run e a =
     migrate_posts e (getPosts (local a)) \<lparr>mig_db = idb a, migrationCount = 0, failed = 0\<rparr>"

text \<open>\<open>migrateOldData\<close>. The outer \<open>try\<close> guards \<open>JSON.parse\<close> and \<open>setItem\<close>,
  which do not throw on the stores modelled here.\<close>

definition migrateOldData :: "env \<Rightarrow> app \<Rightarrow> app" where
  "migrateOldData e a =
     (let (posts, m) = migration_run e a
      in if migrationCount m > 0
         then a\<lparr>local := (local a)\<lparr>architecture_log_posts := Some posts\<rparr>, idb := mig_db m\<rparr>
         else a\<lparr>idb := mig_db m\<rparr>)"

section \<open>Display URLs\<close>

text \<open>The test \<open>typeof imageId === 'string' && imageId.startsWith('data:image')\<close>.\<close>

definition is_inline :: "jv \<Rightarrow> bool" where
  "is_inline v = (case v of JStr d \<Rightarrow> startsWith d ''data:image'' | _ \<Rightarrow> False)"

text \<open>The string a JSON string value holds; \<open>getImageUrl\<close> returns its argument
  only where it is known to be a string.\<close>

definition str_of :: "jv \<Rightarrow> string" where
  "str_of v = (case v of JStr d \<Rightarrow> d | _ \<Rightarrow> [])"

definition getImageUrl :: "env \<Rightarrow> jv \<Rightarrow> app \<Rightarrow> string \<times> app" where
  "getImageUrl e imageId a =
     (case imageUrlCache a imageId of
        Some url \<Rightarrow> (url, a)
      | None \<Rightarrow>
          (if is_inline imageId then (str_of imageId, a)
           else
             (case getImageBlob e imageId (idb a) of
                (Inr b, db') \<Rightarrow>
                  (let url = ''blob:'' @ object_url e (urls_created a)
                   in (url, a\<lparr>idb := db',
                               imageUrlCache := (imageUrlCache a)(imageId \<mapsto> url),
                               urls_created := Suc (urls_created a)\<rparr>))
              | (Inl err, db') \<Rightarrow> ([], a\<lparr>idb := db'\<rparr>))))"

definition revokeImageUrl :: "jv \<Rightarrow> app \<Rightarrow> app" where
  "revokeImageUrl imageId a =
     (case imageUrlCache a imageId of
        Some url \<Rightarrow> a\<lparr>revoked := insert url (revoked a),
                       imageUrlCache := (imageUrlCache a)(imageId := None)\<rparr>
      | None \<Rightarrow> a)"

text \<open>\<open>handleClearImages\<close>; \<open>confirmed\<close> is the answer to the \<open>confirm\<close> dialog.\<close>

definition handleClearImages :: "env \<Rightarrow> bool \<Rightarrow> app \<Rightarrow> app" where
  "handleClearImages e confirmed a =
     (if \<not> confirmed then a
      else (case deleteAllImages e (idb a) of
              (Inr u, db') \<Rightarrow> a\<lparr>idb := db',
                                 revoked := revoked a \<union> ran (imageUrlCache a),
                                 imageUrlCache := Map.empty\<rparr>
            | (Inl err, db') \<Rightarrow> a\<lparr>idb := db'\<rparr>))"

text \<open>
  The states the application can be in. When the script starts the cache is a
  new \<open>Map\<close>, while \<open>localStorage\<close> and the database hold whatever earlier
  sessions left. Afterwards the state changes only through the functions
  above: the DataService calls change \<open>localStorage\<close> alone, an upload saves
  blobs, and the rest act as defined.
\<close>

inductive reachable :: "app \<Rightarrow> bool" where
  start: "imageUrlCache a = Map.empty \<Longrightarrow> reachable a"
| data: "reachable a \<Longrightarrow> reachable (a\<lparr>local := s\<rparr>)"
| upload: "reachable a \<Longrightarrow> reachable (a\<lparr>idb := snd (saveImageBlob e file (idb a))\<rparr>)"
| migrate: "reachable a \<Longrightarrow> reachable (migrateOldData e a)"
| resolve: "reachable a \<Longrightarrow> reachable (snd (getImageUrl e imageId a))"
| revoke: "reachable a \<Longrightarrow> reachable (revokeImageUrl imageId a)"
| clear: "reachable a \<Longrightarrow> reachable (handleClearImages e confirmed a)"

section \<open>Vocabulary of the proofs\<close>

text \<open>
  The definitions of this section are not functions of the program. They name
  what the statements and proofs below talk about.
\<close>

text \<open>The update that \<open>saveUser\<close> and \<open>savePost\<close> both perform on the array
  they read, with the record's identifier as \<open>key\<close>.\<close>

definition upsert :: "('a \<Rightarrow> 'k) \<Rightarrow> 'a \<Rightarrow> 'a list \<Rightarrow> 'a list" where
  "upsert key x xs =
     (let i = findIndex (\<lambda>y. key y = key x) xs
      in if 0 \<le> i then xs[nat i := x] else xs @ [x])"

definition first_occurrences :: "'k list \<Rightarrow> 'k list" where
  "first_occurrences ks = rev (remdups (rev ks))"

definition latest :: "('a \<Rightarrow> 'k) \<Rightarrow> 'a list \<Rightarrow> 'k \<Rightarrow> 'a" where
  "latest key xs k = last (filter (\<lambda>x. key x = k) xs)"

text \<open>The pair a like is identified by, and the update \<open>toggleLike\<close> performs on
  the array it reads.\<close>

definition like_key :: "like \<Rightarrow> string \<times> string" where
  "like_key l = (like_postId l, like_userId l)"

definition toggle :: "string \<Rightarrow> string \<Rightarrow> string \<Rightarrow> like list \<Rightarrow> like list" where
  "toggle p u t likes =
     (let i = findIndex (\<lambda>l. like_postId l = p \<and> like_userId l = u) likes
      in if 0 \<le> i then splice1 (nat i) likes
         else likes @ [\<lparr>like_postId = p, like_userId = u, like_createdAt = t\<rparr>])"

text \<open>\<open>post.images\<close> when it is an array; \<open>post.image\<close> when it is a string that
  starts with \<open>data:image\<close>; and a post the loop body leaves alone.\<close>

definition image_array :: "post \<Rightarrow> jv list option" where
  "image_array p = (case post_images p of Some (JArr imgs) \<Rightarrow> Some imgs | _ \<Rightarrow> None)"

definition legacy_inline :: "post \<Rightarrow> string option" where
  "legacy_inline p =
     (case post_image p of
        Some (JStr d) \<Rightarrow> if startsWith d ''data:image'' then Some d else None
      | _ \<Rightarrow> None)"

definition settled_post :: "post \<Rightarrow> bool" where
  "settled_post p =
     (case image_array p of
        Some imgs \<Rightarrow> list_all (\<lambda>x. \<not> is_inline x) imgs
      | None \<Rightarrow> legacy_inline p = None)"

text \<open>The variables of \<open>migrateOldData\<close> when its outer loop reaches the post at
  index \<open>k\<close>.\<close>

definition before_post :: "env \<Rightarrow> app \<Rightarrow> nat \<Rightarrow> mig" where
  "before_post e a k =
     snd (migrate_posts e (take k (getPosts (local a)))
            \<lparr>mig_db = idb a, migrationCount = 0, failed = 0\<rparr>)"

text \<open>What holds of the cache in every state the application reaches: a key
  is a string that does not start with \<open>data:image\<close> and names a stored blob,
  and a value is an object URL.\<close>

definition cache_ok :: "app \<Rightarrow> bool" where
  "cache_ok a \<longleftrightarrow>
     (\<forall>x u. imageUrlCache a x = Some u \<longrightarrow>
        (\<exists>k. x = JStr k \<and> \<not> startsWith k ''data:image'' \<and> objects (idb a) k \<noteq> None)
        \<and> startsWith u ''blob:'')"

section \<open>Concrete inputs\<close>

text \<open>
  The inputs at which the theorems below are instantiated. The inline image is
  the data URI of the three bytes \<open>ABC\<close>.
\<close>

definition ex_inline :: string where
  "ex_inline = ''data:image/png;base64,QUJD''"

text \<open>An environment in which every database operation completes, one in
  which the requests of the first two operations fail, and one in which the
  database cannot be opened.\<close>

definition ex_env :: env where
  "ex_env =
     \<lparr>idb_result = (\<lambda>n. Completed),
      date_now = (\<lambda>n. 1700000000000 + n),
      random36 = (\<lambda>n. ''k3x9q2m1z''),
      fetch_blob = (\<lambda>d. if d = ex_inline then Some [65, 66, 67] else None),
      object_url = (\<lambda>n. ''http://localhost/'' @ show_nat n)\<rparr>"

definition ex_env_two_fail :: env where
  "ex_env_two_fail = ex_env\<lparr>idb_result := (\<lambda>n. if n < 2 then RequestFailed else Completed)\<rparr>"

definition ex_env_closed :: env where
  "ex_env_closed = ex_env\<lparr>idb_result := (\<lambda>n. OpenFailed)\<rparr>"

text \<open>A post with two inline images in its array, a post with the legacy field
  only, a post with both an (empty) array and the legacy field, and a post
  with three inline images in its array.\<close>

definition ex_post_array :: post where
  "ex_post_array =
     \<lparr>post_id = ''post_1'', post_userId = ''user_A'',
      post_images = Some (JArr [JStr ex_inline, JStr ex_inline]),
      post_image = None, post_rest = []\<rparr>"

definition ex_post_legacy :: post where
  "ex_post_legacy =
     \<lparr>post_id = ''post_2'', post_userId = ''user_A'',
      post_images = None,
      post_image = Some (JStr ex_inline), post_rest = []\<rparr>"

definition ex_post_both :: post where
  "ex_post_both =
     \<lparr>post_id = ''post_3'', post_userId = ''user_A'',
      post_images = Some (JArr []),
      post_image = Some (JStr ex_inline), post_rest = []\<rparr>"

definition ex_post_three :: post where
  "ex_post_three =
     \<lparr>post_id = ''post_4'', post_userId = ''user_A'',
      post_images = Some (JArr [JStr ex_inline, JStr ex_inline, JStr ex_inline]),
      post_image = None, post_rest = []\<rparr>"

definition ex_app :: "post list \<Rightarrow> app" where
  "ex_app ps =
     \<lparr>local = empty_storage\<lparr>architecture_log_posts := Some ps\<rparr>,
      idb = \<lparr>objects = Map.empty, idb_ops = 0\<rparr>,
      imageUrlCache = Map.empty, urls_created = 0, revoked = {}\<rparr>"

text \<open>A freshly started application whose database holds one blob.\<close>

definition ex_app_stored :: app where
  "ex_app_stored =
     \<lparr>local = empty_storage,
      idb = \<lparr>objects = [''img_1700000000000_k3x9q2m1z'' \<mapsto> [65, 66, 67]], idb_ops = 1\<rparr>,
      imageUrlCache = Map.empty, urls_created = 0, revoked = {}\<rparr>"

text \<open>Two likes, on different posts by different users.\<close>

definition ex_likes :: storage where
  "ex_likes =
     empty_storage\<lparr>architecture_log_likes :=
       Some [\<lparr>like_postId = ''post_1'', like_userId = ''user_A'', like_createdAt = ''2024-01-01T00:00:00.000Z''\<rparr>,
             \<lparr>like_postId = ''post_2'', like_userId = ''user_B'', like_createdAt = ''2024-01-02T00:00:00.000Z''\<rparr>]\<rparr>"

text \<open>Three users, the third with the identifier of the first.\<close>

definition ex_user :: "string \<Rightarrow> string \<Rightarrow> user" where
  "ex_user i b = \<lparr>user_id = i, username = ''ann'', bio = b, user_createdAt = ''2024-01-01T00:00:00.000Z''\<rparr>"

section \<open>Facts about the built-ins\<close>

lemma findIndex_ge: "- 1 \<le> findIndex P xs"
  by (induction xs) (auto simp: Let_def)

lemma findIndex_neg_iff: "findIndex P xs < 0 \<longleftrightarrow> (\<forall>x \<in> set xs. \<not> P x)"
  using findIndex_ge [of P] by (induction xs) (auto simp: Let_def)

lemma findIndex_nonneg:
  "0 \<le> findIndex P xs \<Longrightarrow> nat (findIndex P xs) < length xs"
  using findIndex_ge [of P] by (induction xs) (auto simp: Let_def nat_add_distrib)

lemma startsWith_Nil [simp]: "startsWith s [] \<longleftrightarrow> True"
  by (simp add: startsWith_def)

lemma startsWith_Nil_Cons [simp]: "startsWith [] (c # pre) \<longleftrightarrow> False"
  by (simp add: startsWith_def)

lemma startsWith_Cons_Cons [simp]:
  "startsWith (c # s) (c' # pre) \<longleftrightarrow> c = c' \<and> startsWith s pre"
  by (simp add: startsWith_def)

lemma findIndex_snoc_fresh:
  "\<forall>x \<in> set xs. \<not> P x \<Longrightarrow> P y \<Longrightarrow> findIndex P (xs @ [y]) = int (length xs)"
  by (induction xs) (auto simp: Let_def)

lemma splice1_length: "splice1 (length xs) (xs @ [y]) = xs"
  by (simp add: splice1_def)

lemma splice1_Cons_Suc: "splice1 (Suc i) (x # xs) = x # splice1 i xs"
  by (simp add: splice1_def)

lemma splice1_0: "splice1 0 (x # xs) = xs"
  by (simp add: splice1_def)

lemma splice1_first_match:
  "distinct (map key xs) \<Longrightarrow> 0 \<le> findIndex (\<lambda>x. key x = k) xs \<Longrightarrow>
   splice1 (nat (findIndex (\<lambda>x. key x = k) xs)) xs = filter (\<lambda>x. key x \<noteq> k) xs"
proof (induction xs)
  case Nil
  then show ?case by simp
next
  case (Cons a xs)
  show ?case
  proof (cases "key a = k")
    case True
    with Cons.prems have "k \<notin> key ` set xs" by auto
    then have "\<forall>x \<in> set xs. key x \<noteq> k" by (metis imageI)
    then have "filter (\<lambda>x. key x \<noteq> k) xs = xs" by (simp add: filter_id_conv)
    with True show ?thesis by (simp add: splice1_0)
  next
    case False
    with Cons.prems have nn: "0 \<le> findIndex (\<lambda>x. key x = k) xs"
      by (auto simp: Let_def split: if_splits)
    from Cons.prems have d: "distinct (map key xs)" by simp
    from nn have "nat (findIndex (\<lambda>x. key x = k) xs + 1)
                    = Suc (nat (findIndex (\<lambda>x. key x = k) xs))" by simp
    with False nn Cons.IH [OF d nn] show ?thesis
      by (simp add: Let_def splice1_Cons_Suc)
  qed
qed

section \<open>Facts about the DataService\<close>

subsection \<open>Upsert\<close>

lemma getUsers_saveUser: "getUsers (saveUser u s) = upsert user_id u (getUsers s)"
  by (simp add: saveUser_def upsert_def getUsers_def Let_def)

lemma getPosts_savePost: "getPosts (savePost p s) = upsert post_id p (getPosts s)"
  by (simp add: savePost_def upsert_def getPosts_def Let_def)

lemma getUsers_fold_saveUser:
  "getUsers (fold saveUser us s) = fold (upsert user_id) us (getUsers s)"
  by (induction us arbitrary: s) (simp_all add: getUsers_saveUser)

lemma getPosts_fold_savePost:
  "getPosts (fold savePost ps s) = fold (upsert post_id) ps (getPosts s)"
  by (induction ps arbitrary: s) (simp_all add: getPosts_savePost)

lemma upsert_absent:
  "key x \<notin> key ` set xs \<Longrightarrow> upsert key x xs = xs @ [x]"
proof -
  assume "key x \<notin> key ` set xs"
  then have "findIndex (\<lambda>y. key y = key x) xs < 0"
    unfolding findIndex_neg_iff by (metis imageI)
  then show ?thesis by (simp add: upsert_def Let_def)
qed

lemma upsert_present:
  "distinct (map key xs) \<Longrightarrow> key x \<in> key ` set xs \<Longrightarrow>
   upsert key x xs = map (\<lambda>y. if key y = key x then x else y) xs"
proof (induction xs)
  case Nil
  then show ?case by simp
next
  case (Cons a xs)
  show ?case
  proof (cases "key a = key x")
    case True
    with Cons.prems have "key x \<notin> key ` set xs" by simp
    then have "\<forall>y \<in> set xs. key y \<noteq> key x" by (metis imageI)
    then have "map (\<lambda>y. if key y = key x then x else y) xs = xs"
      by (induction xs) auto
    with True show ?thesis by (simp add: upsert_def)
  next
    case False
    with Cons.prems have in_xs: "key x \<in> key ` set xs" and d: "distinct (map key xs)" by auto
    then have nn: "0 \<le> findIndex (\<lambda>y. key y = key x) xs"
      using findIndex_neg_iff [of "\<lambda>y. key y = key x" xs] by fastforce
    from Cons.IH [OF d in_xs] nn
    have "xs[nat (findIndex (\<lambda>y. key y = key x) xs) := x]
            = map (\<lambda>y. if key y = key x then x else y) xs"
      by (simp add: upsert_def Let_def)
    with False nn show ?thesis
      by (simp add: upsert_def Let_def nat_add_distrib)
  qed
qed

lemma first_occurrences_snoc:
  "first_occurrences (ks @ [k]) =
     (if k \<in> set ks then first_occurrences ks else first_occurrences ks @ [k])"
  by (simp add: first_occurrences_def)

lemma set_first_occurrences: "set (first_occurrences ks) = set ks"
  by (simp add: first_occurrences_def)

lemma distinct_first_occurrences: "distinct (first_occurrences ks)"
  by (simp add: first_occurrences_def)

lemma latest_snoc:
  "latest key (xs @ [x]) k = (if key x = k then x else latest key xs k)"
  by (simp add: latest_def)

lemma key_latest: "k \<in> key ` set xs \<Longrightarrow> key (latest key xs k) = k"
proof -
  assume "k \<in> key ` set xs"
  then have ne: "filter (\<lambda>x. key x = k) xs \<noteq> []"
    by (auto simp: filter_empty_conv)
  from last_in_set [OF ne] show ?thesis by (simp add: latest_def)
qed

lemma map_key_latest:
  "set ks \<subseteq> key ` set xs \<Longrightarrow> map key (map (latest key xs) ks) = ks"
  by (induction ks) (auto simp: key_latest)

lemma fold_upsert_from_empty:
  "fold (upsert key) xs [] = map (latest key xs) (first_occurrences (map key xs))"
proof (induction xs rule: rev_induct)
  case Nil
  then show ?case by (simp add: first_occurrences_def)
next
  case (snoc x xs)
  let ?ks = "first_occurrences (map key xs)"
  let ?ys = "map (latest key xs) ?ks"
  have keys: "map key ?ys = ?ks"
    by (rule map_key_latest) (simp add: set_first_occurrences)
  have step: "fold (upsert key) (xs @ [x]) [] = upsert key x ?ys"
    using snoc.IH by simp
  show ?case
  proof (cases "key x \<in> key ` set xs")
    case True
    have d: "distinct (map key ?ys)" using keys distinct_first_occurrences by metis
    have m: "key x \<in> key ` set ?ys"
      using True keys set_first_occurrences [of "map key xs"]
      by (metis list.set_map)
    have "upsert key x ?ys = map (\<lambda>y. if key y = key x then x else y) ?ys"
      by (rule upsert_present [OF d m])
    also have "\<dots> = map (\<lambda>k. if k = key x then x else latest key xs k) ?ks"
      using set_first_occurrences [of "map key xs"]
      by (auto simp: key_latest)
    also have "\<dots> = map (latest key (xs @ [x])) ?ks"
      by (auto simp: latest_snoc)
    finally show ?thesis using True step
      by (simp add: first_occurrences_snoc)
  next
    case False
    have m: "key x \<notin> key ` set ?ys"
      using False keys set_first_occurrences [of "map key xs"]
      by (metis list.set_map)
    have "upsert key x ?ys = ?ys @ [x]" by (rule upsert_absent [OF m])
    moreover have "map (latest key (xs @ [x])) ?ks = ?ys"
      using False set_first_occurrences [of "map key xs"]
      by (auto simp: latest_snoc)
    ultimately show ?thesis using False step
      by (simp add: first_occurrences_snoc latest_snoc)
  qed
qed

subsection \<open>Likes\<close>

lemma getLikes_toggleLike:
  "getLikes None (toggleLike p u t s) = toggle p u t (getLikes None s)"
  by (simp add: toggleLike_def toggle_def getLikes_def Let_def)

lemma isLiked_iff:
  "p \<noteq> [] \<Longrightarrow>
   isLiked p u s \<longleftrightarrow> (\<exists>l \<in> set (getLikes None s). like_postId l = p \<and> like_userId l = u)"
  by (auto simp: isLiked_def getLikes_def list_ex_iff Let_def)

lemma like_key_eq: "like_key l = (p, u) \<longleftrightarrow> like_postId l = p \<and> like_userId l = u"
  by (auto simp: like_key_def)

lemma toggle_absent:
  "\<forall>l \<in> set likes. like_key l \<noteq> (p, u) \<Longrightarrow>
   toggle p u t likes = likes @ [\<lparr>like_postId = p, like_userId = u, like_createdAt = t\<rparr>]"
proof -
  assume "\<forall>l \<in> set likes. like_key l \<noteq> (p, u)"
  then have "findIndex (\<lambda>l. like_postId l = p \<and> like_userId l = u) likes < 0"
    by (simp add: findIndex_neg_iff like_key_eq)
  then show ?thesis by (simp add: toggle_def Let_def)
qed

lemma toggle_present:
  assumes "distinct (map like_key likes)" and "\<exists>l \<in> set likes. like_key l = (p, u)"
  shows "toggle p u t likes = filter (\<lambda>l. like_key l \<noteq> (p, u)) likes"
proof -
  have eq: "(\<lambda>l. like_postId l = p \<and> like_userId l = u) = (\<lambda>l. like_key l = (p, u))"
    by (simp add: like_key_eq)
  from assms(2) have nn: "0 \<le> findIndex (\<lambda>l. like_key l = (p, u)) likes"
    using findIndex_neg_iff [of "\<lambda>l. like_key l = (p, u)" likes] by fastforce
  from splice1_first_match [OF assms(1) nn] nn show ?thesis
    by (simp add: toggle_def eq Let_def)
qed

lemma distinct_toggle:
  assumes "distinct (map like_key likes)"
  shows "distinct (map like_key (toggle p u t likes))"
proof (cases "\<exists>l \<in> set likes. like_key l = (p, u)")
  case True
  from toggle_present [OF assms True] assms show ?thesis
    by (simp add: distinct_map_filter)
next
  case False
  then have a: "\<forall>l \<in> set likes. like_key l \<noteq> (p, u)" by simp
  then have "(p, u) \<notin> like_key ` set likes" by auto
  with toggle_absent [OF a] assms show ?thesis
    by (simp add: like_key_def)
qed

lemma distinct_fold_toggleLike:
  "distinct (map like_key (getLikes None s)) \<Longrightarrow>
   distinct (map like_key (getLikes None (fold (\<lambda>(p, u, t). toggleLike p u t) calls s)))"
proof (induction calls arbitrary: s)
  case Nil
  then show ?case by simp
next
  case (Cons c calls)
  obtain p u t where c: "c = (p, u, t)" by (cases c)
  from Cons.prems have "distinct (map like_key (getLikes None (toggleLike p u t s)))"
    by (simp add: getLikes_toggleLike distinct_toggle)
  from Cons.IH [OF this] c show ?case by simp
qed

section \<open>Facts about the migration\<close>

subsection \<open>Saving a blob\<close>

lemma saveImageBlob_Inr:
  "saveImageBlob e file db = (Inr imageId, db') \<Longrightarrow>
     idb_result e (idb_ops db) = Completed
   \<and> imageId = ''img_'' @ show_nat (date_now e (idb_ops db)) @ ''_'' @ random36 e (idb_ops db)
   \<and> db' = db\<lparr>idb_ops := Suc (idb_ops db), objects := (objects db)(imageId \<mapsto> file)\<rparr>"
  by (auto simp: saveImageBlob_def Let_def split: idb_outcome.splits)

lemma saveImageBlob_Inl:
  "saveImageBlob e file db = (Inl err, db') \<Longrightarrow>
     idb_result e (idb_ops db) \<noteq> Completed \<and> db' = db\<lparr>idb_ops := Suc (idb_ops db)\<rparr>"
  by (auto simp: saveImageBlob_def Let_def split: idb_outcome.splits)

lemma fetch_and_save_Inr:
  "fetch_and_save e d db = (Inr imageId, db') \<Longrightarrow>
     (\<exists>b. fetch_blob e d = Some b \<and> objects db' imageId = Some b)
   \<and> idb_result e (idb_ops db) = Completed
   \<and> imageId = ''img_'' @ show_nat (date_now e (idb_ops db)) @ ''_'' @ random36 e (idb_ops db)
   \<and> dom (objects db) \<subseteq> dom (objects db')"
  by (auto simp: fetch_and_save_def dest!: saveImageBlob_Inr split: option.splits)

lemma fetch_and_save_Inl:
  "fetch_and_save e d db = (Inl err, db') \<Longrightarrow> objects db' = objects db"
  by (auto simp: fetch_and_save_def dest!: saveImageBlob_Inl split: option.splits)

lemma fetch_and_save_not_inline:
  "fetch_and_save e d db = (Inr imageId, db') \<Longrightarrow> \<not> startsWith imageId ''data:image''"
  by (auto dest!: fetch_and_save_Inr)

lemma fetch_and_save_dom:
  "dom (objects db) \<subseteq> dom (objects (snd (fetch_and_save e d db)))"
proof (cases "fetch_and_save e d db")
  case (Pair r db')
  then show ?thesis
    by (cases r) (auto dest: fetch_and_save_Inr fetch_and_save_Inl)
qed

subsection \<open>One image\<close>

lemma migrate_image_not_inline:
  "\<not> is_inline x \<Longrightarrow> migrate_image e x m = (x, m)"
  by (auto simp: migrate_image_def is_inline_def split: jv.splits)

lemma migrate_image_count_mono:
  "migrationCount m \<le> migrationCount (snd (migrate_image e x m))"
  by (auto simp: migrate_image_def split: jv.splits prod.splits sum.splits)

lemma migrate_image_failed_mono:
  "failed m \<le> failed (snd (migrate_image e x m))"
  by (auto simp: migrate_image_def split: jv.splits prod.splits sum.splits)

lemma migrate_image_dom:
  "dom (objects (mig_db m)) \<subseteq> dom (objects (mig_db (snd (migrate_image e x m))))"
proof (cases "is_inline x")
  case False
  then show ?thesis by (simp add: migrate_image_not_inline)
next
  case True
  then obtain d where x: "x = JStr d" and d: "startsWith d ''data:image''"
    by (auto simp: is_inline_def split: jv.splits)
  obtain r db' where r: "fetch_and_save e d (mig_db m) = (r, db')"
    by (cases "fetch_and_save e d (mig_db m)")
  with fetch_and_save_dom [of "mig_db m" e d] have "dom (objects (mig_db m)) \<subseteq> dom (objects db')"
    by simp
  with x d r show ?thesis
    by (cases r) (simp_all add: migrate_image_def)
qed

lemma migrate_image_same_count:
  "migrationCount (snd (migrate_image e x m)) = migrationCount m \<Longrightarrow>
   fst (migrate_image e x m) = x"
  by (auto simp: migrate_image_def split: jv.splits prod.splits sum.splits)

lemma migrate_image_no_failure:
  "failed (snd (migrate_image e x m)) = failed m \<Longrightarrow>
   \<not> is_inline (fst (migrate_image e x m))"
  by (auto simp: migrate_image_def is_inline_def fetch_and_save_not_inline
      split: jv.splits prod.splits sum.splits)


subsection \<open>The inner loop\<close>

lemma migrate_images_Cons [simp]:
  "migrate_images e (x # xs) m =
     (fst (migrate_image e x m) # fst (migrate_images e xs (snd (migrate_image e x m))),
      snd (migrate_images e xs (snd (migrate_image e x m))))"
  by (simp add: split_beta Let_def)

declare migrate_images.simps(2) [simp del]

lemma migrate_images_length: "length (fst (migrate_images e xs m)) = length xs"
  by (induction xs arbitrary: m) simp_all

lemma migrate_images_append:
  "migrate_images e (xs @ ys) m =
     (fst (migrate_images e xs m) @ fst (migrate_images e ys (snd (migrate_images e xs m))),
      snd (migrate_images e ys (snd (migrate_images e xs m))))"
  by (induction xs arbitrary: m) simp_all

lemma migrate_images_nth:
  assumes "i < length xs"
  shows "fst (migrate_images e xs m) ! i
           = fst (migrate_image e (xs ! i) (snd (migrate_images e (take i xs) m)))"
proof -
  have "xs = take i xs @ xs ! i # drop (Suc i) xs"
    using assms by (simp add: id_take_nth_drop)
  then have "fst (migrate_images e xs m) ! i
      = (fst (migrate_images e (take i xs) m)
          @ fst (migrate_images e (xs ! i # drop (Suc i) xs) (snd (migrate_images e (take i xs) m)))) ! i"
    by (metis fst_conv migrate_images_append)
  also have "\<dots> = fst (migrate_image e (xs ! i) (snd (migrate_images e (take i xs) m)))"
    using assms by (simp add: nth_append migrate_images_length)
  finally show ?thesis .
qed

lemma migrate_images_not_inline:
  "list_all (\<lambda>x. \<not> is_inline x) xs \<Longrightarrow> migrate_images e xs m = (xs, m)"
  by (induction xs arbitrary: m) (auto simp: migrate_image_not_inline)

lemma migrate_images_count_mono:
  "migrationCount m \<le> migrationCount (snd (migrate_images e xs m))"
proof (induction xs arbitrary: m)
  case Nil
  then show ?case by simp
next
  case (Cons x xs)
  have "migrationCount m \<le> migrationCount (snd (migrate_image e x m))"
    by (rule migrate_image_count_mono)
  also have "\<dots> \<le> migrationCount (snd (migrate_images e xs (snd (migrate_image e x m))))"
    by (rule Cons.IH)
  finally show ?case by simp
qed

lemma migrate_images_failed_mono:
  "failed m \<le> failed (snd (migrate_images e xs m))"
proof (induction xs arbitrary: m)
  case Nil
  then show ?case by simp
next
  case (Cons x xs)
  have "failed m \<le> failed (snd (migrate_image e x m))"
    by (rule migrate_image_failed_mono)
  also have "\<dots> \<le> failed (snd (migrate_images e xs (snd (migrate_image e x m))))"
    by (rule Cons.IH)
  finally show ?case by simp
qed

lemma migrate_images_dom:
  "dom (objects (mig_db m)) \<subseteq> dom (objects (mig_db (snd (migrate_images e xs m))))"
proof (induction xs arbitrary: m)
  case Nil
  then show ?case by simp
next
  case (Cons x xs)
  have "dom (objects (mig_db m)) \<subseteq> dom (objects (mig_db (snd (migrate_image e x m))))"
    by (rule migrate_image_dom)
  also have "\<dots> \<subseteq> dom (objects (mig_db (snd (migrate_images e xs (snd (migrate_image e x m))))))"
    by (rule Cons.IH)
  finally show ?case by simp
qed

lemma migrate_images_same_count:
  "migrationCount (snd (migrate_images e xs m)) = migrationCount m \<Longrightarrow>
   fst (migrate_images e xs m) = xs"
proof (induction xs arbitrary: m)
  case Nil
  then show ?case by simp
next
  case (Cons x xs)
  let ?m1 = "snd (migrate_image e x m)"
  from Cons.prems have eq: "migrationCount (snd (migrate_images e xs ?m1)) = migrationCount m"
    by simp
  with migrate_image_count_mono [of m e x] migrate_images_count_mono [of ?m1 e xs]
  have a: "migrationCount ?m1 = migrationCount m"
    and b: "migrationCount (snd (migrate_images e xs ?m1)) = migrationCount ?m1"
    by simp_all
  from migrate_image_same_count [OF a] Cons.IH [OF b] show ?case
    by simp
qed

lemma migrate_images_no_failure:
  "failed (snd (migrate_images e xs m)) = failed m \<Longrightarrow>
   list_all (\<lambda>x. \<not> is_inline x) (fst (migrate_images e xs m))"
proof (induction xs arbitrary: m)
  case Nil
  then show ?case by simp
next
  case (Cons x xs)
  let ?m1 = "snd (migrate_image e x m)"
  from Cons.prems have eq: "failed (snd (migrate_images e xs ?m1)) = failed m"
    by simp
  with migrate_image_failed_mono [of m e x] migrate_images_failed_mono [of ?m1 e xs]
  have a: "failed ?m1 = failed m"
    and b: "failed (snd (migrate_images e xs ?m1)) = failed ?m1"
    by simp_all
  from migrate_image_no_failure [OF a] Cons.IH [OF b] show ?case
    by simp
qed


subsection \<open>One post\<close>

lemma image_array_Some: "image_array p = Some imgs \<longleftrightarrow> post_images p = Some (JArr imgs)"
  by (auto simp: image_array_def split: option.splits jv.splits)

lemma migrate_post_array:
  "image_array p = Some imgs \<Longrightarrow>
   migrate_post e p m =
     (p\<lparr>post_images := Some (JArr (fst (migrate_images e imgs m)))\<rparr>,
      snd (migrate_images e imgs m))"
  by (simp add: image_array_Some migrate_post_def split_beta)

lemma migrate_post_legacy:
  "image_array p = None \<Longrightarrow> legacy_inline p = Some d \<Longrightarrow>
   migrate_post e p m =
     (case fetch_and_save e d (mig_db m) of
        (Inr imageId, db') \<Rightarrow>
          (p\<lparr>post_images := Some (JArr [JStr imageId]), post_image := None\<rparr>,
           m\<lparr>mig_db := db', migrationCount := migrationCount m + 1\<rparr>)
      | (Inl err, db') \<Rightarrow> (p, m\<lparr>mig_db := db', failed := failed m + 1\<rparr>))"
  by (auto simp: image_array_def legacy_inline_def migrate_post_def
      split: option.splits jv.splits if_splits)

lemma migrate_post_other:
  "image_array p = None \<Longrightarrow> legacy_inline p = None \<Longrightarrow> migrate_post e p m = (p, m)"
  by (auto simp: image_array_def legacy_inline_def migrate_post_def
      split: option.splits jv.splits if_splits)

lemma migrate_post_settled: "settled_post p \<Longrightarrow> migrate_post e p m = (p, m)"
proof (cases "image_array p")
  case None
  assume "settled_post p"
  with None show ?thesis by (simp add: settled_post_def migrate_post_other)
next
  case (Some imgs)
  assume "settled_post p"
  with Some have "migrate_images e imgs m = (imgs, m)"
    by (simp add: settled_post_def migrate_images_not_inline)
  moreover from Some have "p\<lparr>post_images := Some (JArr imgs)\<rparr> = p"
    by (simp add: image_array_Some)
  ultimately show ?thesis using Some by (simp add: migrate_post_array)
qed

lemma migrate_post_cases:
  obtains (array) imgs where "image_array p = Some imgs"
    | (legacy_ok) d imageId db' where "image_array p = None" "legacy_inline p = Some d"
        "fetch_and_save e d (mig_db m) = (Inr imageId, db')"
    | (legacy_failed) d err db' where "image_array p = None" "legacy_inline p = Some d"
        "fetch_and_save e d (mig_db m) = (Inl err, db')"
    | (other) "image_array p = None" "legacy_inline p = None"
proof (cases "image_array p")
  case (Some imgs)
  then show ?thesis by (rule array)
next
  case None
  show ?thesis
  proof (cases "legacy_inline p")
    case n: None
    with None show ?thesis by (rule other)
  next
    case (Some d)
    obtain r db' where r: "fetch_and_save e d (mig_db m) = (r, db')"
      by (cases "fetch_and_save e d (mig_db m)")
    show ?thesis
    proof (cases r)
      case (Inl err)
      with None Some r show ?thesis by (auto intro: legacy_failed)
    next
      case (Inr imageId)
      with None Some r show ?thesis by (auto intro: legacy_ok)
    qed
  qed
qed

lemma migrate_post_count_mono:
  "migrationCount m \<le> migrationCount (snd (migrate_post e p m))"
  by (cases rule: migrate_post_cases [where p = p and e = e and m = m])
    (simp_all add: migrate_post_array migrate_post_legacy migrate_post_other
      migrate_images_count_mono)

lemma migrate_post_failed_mono:
  "failed m \<le> failed (snd (migrate_post e p m))"
  by (cases rule: migrate_post_cases [where p = p and e = e and m = m])
    (simp_all add: migrate_post_array migrate_post_legacy migrate_post_other
      migrate_images_failed_mono)

lemma migrate_post_dom:
  "dom (objects (mig_db m)) \<subseteq> dom (objects (mig_db (snd (migrate_post e p m))))"
proof (cases rule: migrate_post_cases [where p = p and e = e and m = m])
  case (array imgs)
  then show ?thesis by (simp add: migrate_post_array migrate_images_dom)
next
  case (legacy_ok d imageId db')
  with fetch_and_save_dom [of "mig_db m" e d] show ?thesis
    by (simp add: migrate_post_legacy)
next
  case (legacy_failed d err db')
  with fetch_and_save_dom [of "mig_db m" e d] show ?thesis
    by (simp add: migrate_post_legacy)
next
  case other
  then show ?thesis by (simp add: migrate_post_other)
qed

lemma migrate_post_same_count:
  assumes "migrationCount (snd (migrate_post e p m)) = migrationCount m"
  shows "fst (migrate_post e p m) = p"
proof (cases rule: migrate_post_cases [where p = p and e = e and m = m])
  case (array imgs)
  with assms have "fst (migrate_images e imgs m) = imgs"
    by (simp add: migrate_post_array migrate_images_same_count)
  moreover from array have "p\<lparr>post_images := Some (JArr imgs)\<rparr> = p"
    by (simp add: image_array_Some)
  ultimately show ?thesis using array by (simp add: migrate_post_array)
next
  case (legacy_ok d imageId db')
  with assms show ?thesis by (simp add: migrate_post_legacy)
next
  case (legacy_failed d err db')
  then show ?thesis by (simp add: migrate_post_legacy)
next
  case other
  then show ?thesis by (simp add: migrate_post_other)
qed

lemma migrate_post_no_failure:
  assumes "failed (snd (migrate_post e p m)) = failed m"
  shows "settled_post (fst (migrate_post e p m))"
proof (cases rule: migrate_post_cases [where p = p and e = e and m = m])
  case (array imgs)
  with assms have "list_all (\<lambda>x. \<not> is_inline x) (fst (migrate_images e imgs m))"
    by (simp add: migrate_post_array migrate_images_no_failure)
  with array show ?thesis
    by (simp add: migrate_post_array settled_post_def image_array_def)
next
  case (legacy_ok d imageId db')
  from fetch_and_save_not_inline [OF legacy_ok(3)] legacy_ok show ?thesis
    by (simp add: migrate_post_legacy settled_post_def image_array_def is_inline_def)
next
  case (legacy_failed d err db')
  with assms show ?thesis by (simp add: migrate_post_legacy)
next
  case other
  then show ?thesis by (simp add: migrate_post_other settled_post_def)
qed

subsection \<open>The outer loop\<close>

lemma migrate_posts_Cons [simp]:
  "migrate_posts e (p # ps) m =
     (fst (migrate_post e p m) # fst (migrate_posts e ps (snd (migrate_post e p m))),
      snd (migrate_posts e ps (snd (migrate_post e p m))))"
  by (simp add: split_beta Let_def)

declare migrate_posts.simps(2) [simp del]

lemma migrate_posts_length: "length (fst (migrate_posts e ps m)) = length ps"
  by (induction ps arbitrary: m) simp_all

lemma migrate_posts_append:
  "migrate_posts e (ps @ qs) m =
     (fst (migrate_posts e ps m) @ fst (migrate_posts e qs (snd (migrate_posts e ps m))),
      snd (migrate_posts e qs (snd (migrate_posts e ps m))))"
  by (induction ps arbitrary: m) simp_all

lemma migrate_posts_nth:
  assumes "k < length ps"
  shows "fst (migrate_posts e ps m) ! k
           = fst (migrate_post e (ps ! k) (snd (migrate_posts e (take k ps) m)))"
proof -
  have "ps = take k ps @ ps ! k # drop (Suc k) ps"
    using assms by (simp add: id_take_nth_drop)
  then have "fst (migrate_posts e ps m) ! k
      = (fst (migrate_posts e (take k ps) m)
          @ fst (migrate_posts e (ps ! k # drop (Suc k) ps) (snd (migrate_posts e (take k ps) m)))) ! k"
    by (metis fst_conv migrate_posts_append)
  also have "\<dots> = fst (migrate_post e (ps ! k) (snd (migrate_posts e (take k ps) m)))"
    using assms by (simp add: nth_append migrate_posts_length)
  finally show ?thesis .
qed

lemma migrate_posts_settled:
  "list_all settled_post ps \<Longrightarrow> migrate_posts e ps m = (ps, m)"
  by (induction ps arbitrary: m) (auto simp: migrate_post_settled)

lemma migrate_posts_count_mono:
  "migrationCount m \<le> migrationCount (snd (migrate_posts e ps m))"
proof (induction ps arbitrary: m)
  case Nil
  then show ?case by simp
next
  case (Cons p ps)
  have "migrationCount m \<le> migrationCount (snd (migrate_post e p m))"
    by (rule migrate_post_count_mono)
  also have "\<dots> \<le> migrationCount (snd (migrate_posts e ps (snd (migrate_post e p m))))"
    by (rule Cons.IH)
  finally show ?case by simp
qed

lemma migrate_posts_failed_mono:
  "failed m \<le> failed (snd (migrate_posts e ps m))"
proof (induction ps arbitrary: m)
  case Nil
  then show ?case by simp
next
  case (Cons p ps)
  have "failed m \<le> failed (snd (migrate_post e p m))"
    by (rule migrate_post_failed_mono)
  also have "\<dots> \<le> failed (snd (migrate_posts e ps (snd (migrate_post e p m))))"
    by (rule Cons.IH)
  finally show ?case by simp
qed

lemma migrate_posts_dom:
  "dom (objects (mig_db m)) \<subseteq> dom (objects (mig_db (snd (migrate_posts e ps m))))"
proof (induction ps arbitrary: m)
  case Nil
  then show ?case by simp
next
  case (Cons p ps)
  have "dom (objects (mig_db m)) \<subseteq> dom (objects (mig_db (snd (migrate_post e p m))))"
    by (rule migrate_post_dom)
  also have "\<dots> \<subseteq> dom (objects (mig_db (snd (migrate_posts e ps (snd (migrate_post e p m))))))"
    by (rule Cons.IH)
  finally show ?case by simp
qed

lemma migrate_posts_same_count:
  "migrationCount (snd (migrate_posts e ps m)) = migrationCount m \<Longrightarrow>
   fst (migrate_posts e ps m) = ps"
proof (induction ps arbitrary: m)
  case Nil
  then show ?case by simp
next
  case (Cons p ps)
  let ?m1 = "snd (migrate_post e p m)"
  from Cons.prems have "migrationCount (snd (migrate_posts e ps ?m1)) = migrationCount m"
    by simp
  with migrate_post_count_mono [of m e p] migrate_posts_count_mono [of ?m1 e ps]
  have a: "migrationCount ?m1 = migrationCount m"
    and b: "migrationCount (snd (migrate_posts e ps ?m1)) = migrationCount ?m1"
    by simp_all
  from migrate_post_same_count [OF a] Cons.IH [OF b] show ?case by simp
qed

lemma migrate_posts_no_failure:
  "failed (snd (migrate_posts e ps m)) = failed m \<Longrightarrow>
   list_all settled_post (fst (migrate_posts e ps m))"
proof (induction ps arbitrary: m)
  case Nil
  then show ?case by simp
next
  case (Cons p ps)
  let ?m1 = "snd (migrate_post e p m)"
  from Cons.prems have "failed (snd (migrate_posts e ps ?m1)) = failed m"
    by simp
  with migrate_post_failed_mono [of m e p] migrate_posts_failed_mono [of ?m1 e ps]
  have a: "failed ?m1 = failed m"
    and b: "failed (snd (migrate_posts e ps ?m1)) = failed ?m1"
    by simp_all
  from migrate_post_no_failure [OF a] Cons.IH [OF b] show ?case by simp
qed

subsection \<open>The whole pass\<close>

lemma getPosts_migrateOldData:
  "getPosts (local (migrateOldData e a)) = fst (migration_run e a)"
proof (cases "migrationCount (snd (migration_run e a)) > 0")
  case True
  then show ?thesis
    by (simp add: migrateOldData_def split_beta getPosts_def)
next
  case False
  then have "migrationCount (snd (migration_run e a)) = 0" by simp
  then have "fst (migration_run e a) = getPosts (local a)"
    unfolding migration_run_def
    using migrate_posts_same_count
      [of e "getPosts (local a)" "\<lparr>mig_db = idb a, migrationCount = 0, failed = 0\<rparr>"]
    by simp
  with False show ?thesis
    by (simp add: migrateOldData_def split_beta)
qed

lemma idb_migrateOldData: "idb (migrateOldData e a) = mig_db (snd (migration_run e a))"
  by (simp add: migrateOldData_def split_beta)

lemma stored_post_nth:
  "k < length (getPosts (local a)) \<Longrightarrow>
   getPosts (local (migrateOldData e a)) ! k
     = fst (migrate_post e (getPosts (local a) ! k) (before_post e a k))"
  by (simp add: getPosts_migrateOldData migration_run_def migrate_posts_nth before_post_def)

lemma stored_posts_length:
  "length (getPosts (local (migrateOldData e a))) = length (getPosts (local a))"
  by (simp add: getPosts_migrateOldData migration_run_def migrate_posts_length)

lemma migrate_posts_take_Suc:
  "k < length ps \<Longrightarrow>
   snd (migrate_posts e (take (Suc k) ps) m)
     = snd (migrate_post e (ps ! k) (snd (migrate_posts e (take k ps) m)))"
  by (simp add: take_Suc_conv_app_nth migrate_posts_append)

lemma migrate_posts_split:
  "snd (migrate_posts e ps m)
     = snd (migrate_posts e (drop k ps) (snd (migrate_posts e (take k ps) m)))"
  using migrate_posts_append [of e "take k ps" "drop k ps" m] by simp

lemma dom_after_post:
  assumes "k < length (getPosts (local a))"
  shows "dom (objects (mig_db (snd (migrate_post e (getPosts (local a) ! k) (before_post e a k)))))
           \<subseteq> dom (objects (idb (migrateOldData e a)))"
proof -
  let ?ps = "getPosts (local a)"
  let ?m0 = "\<lparr>mig_db = idb a, migrationCount = 0, failed = 0\<rparr>"
  let ?mk = "snd (migrate_posts e (take (Suc k) ?ps) ?m0)"
  have "snd (migrate_post e (?ps ! k) (before_post e a k)) = ?mk"
    using assms by (simp add: migrate_posts_take_Suc before_post_def)
  moreover have "idb (migrateOldData e a) = mig_db (snd (migrate_posts e (drop (Suc k) ?ps) ?mk))"
    using migrate_posts_split [of e ?ps ?m0 "Suc k"]
    by (simp add: idb_migrateOldData migration_run_def)
  ultimately show ?thesis
    using migrate_posts_dom [of ?mk e "drop (Suc k) ?ps"] by simp
qed

subsection \<open>What the pass stores\<close>

lemma migrate_image_converted:
  "startsWith d ''data:image'' \<Longrightarrow> fst (fetch_and_save e d (mig_db m)) = Inr imageId \<Longrightarrow>
   fst (migrate_image e (JStr d) m) = JStr imageId"
  by (cases "fetch_and_save e d (mig_db m)") (simp add: migrate_image_def)

lemma migrate_image_retained:
  "startsWith d ''data:image'' \<Longrightarrow> fst (fetch_and_save e d (mig_db m)) = Inl err \<Longrightarrow>
   fst (migrate_image e (JStr d) m) = JStr d"
  by (cases "fetch_and_save e d (mig_db m)") (simp add: migrate_image_def)

lemma mig_db_migrate_image:
  "mig_db (snd (migrate_image e x m))
     = (if is_inline x then snd (fetch_and_save e (str_of x) (mig_db m)) else mig_db m)"
proof (cases "is_inline x")
  case False
  then show ?thesis by (simp add: migrate_image_not_inline)
next
  case True
  then obtain d where x: "x = JStr d" and d: "startsWith d ''data:image''"
    by (auto simp: is_inline_def split: jv.splits)
  obtain r db' where r: "fetch_and_save e d (mig_db m) = (r, db')"
    by (cases "fetch_and_save e d (mig_db m)")
  with x d True show ?thesis
    by (cases r) (simp_all add: migrate_image_def str_of_def)
qed

lemma migrate_images_take_Suc:
  "j < length xs \<Longrightarrow>
   snd (migrate_images e (take (Suc j) xs) m)
     = snd (migrate_image e (xs ! j) (snd (migrate_images e (take j xs) m)))"
  by (simp add: take_Suc_conv_app_nth migrate_images_append)

lemma before_post_Suc:
  "k < length (getPosts (local a)) \<Longrightarrow>
   before_post e a (Suc k)
     = snd (migrate_post e (getPosts (local a) ! k) (before_post e a k))"
  by (simp add: before_post_def migrate_posts_take_Suc)

lemma mig_db_migrate_post_legacy:
  assumes "image_array p = None" and "legacy_inline p = Some d"
  shows "mig_db (snd (migrate_post e p m)) = snd (fetch_and_save e d (mig_db m))"
proof -
  obtain r db' where r: "fetch_and_save e d (mig_db m) = (r, db')"
    by (cases "fetch_and_save e d (mig_db m)")
  then show ?thesis
    by (cases r) (simp_all add: migrate_post_legacy [OF assms])
qed

lemma migrate_post_legacy_converted:
  assumes "image_array p = None" and "legacy_inline p = Some d"
    and "fst (fetch_and_save e d (mig_db m)) = Inr imageId"
  shows "fst (migrate_post e p m)
           = p\<lparr>post_images := Some (JArr [JStr imageId]), post_image := None\<rparr>"
  using assms(3)
  by (cases "fetch_and_save e d (mig_db m)") (simp add: migrate_post_legacy [OF assms(1,2)])

lemma migrate_post_legacy_retained:
  assumes "image_array p = None" and "legacy_inline p = Some d"
    and "fst (fetch_and_save e d (mig_db m)) = Inl err"
  shows "fst (migrate_post e p m) = p"
  using assms(3)
  by (cases "fetch_and_save e d (mig_db m)") (simp add: migrate_post_legacy [OF assms(1,2)])

lemma image_array_None: "image_array p = None \<longleftrightarrow> (\<forall>xs. post_images p \<noteq> Some (JArr xs))"
  by (auto simp: image_array_def split: option.splits jv.splits)

lemma legacy_inline_Some:
  "legacy_inline p = Some d \<longleftrightarrow> post_image p = Some (JStr d) \<and> startsWith d ''data:image''"
  by (auto simp: legacy_inline_def split: option.splits jv.splits if_splits)

lemma legacy_inline_None:
  "legacy_inline p = None \<longleftrightarrow> (\<forall>d. post_image p = Some (JStr d) \<longrightarrow> \<not> startsWith d ''data:image'')"
  by (auto simp: legacy_inline_def split: option.splits jv.splits if_splits)

lemma idb_migrateOldData_before_post:
  "idb (migrateOldData e a) = mig_db (before_post e a (length (getPosts (local a))))"
  by (simp add: idb_migrateOldData migration_run_def before_post_def)

text \<open>What the pass stores for a post with an image array.\<close>

lemma stored_array_post:
  assumes k: "k < length (getPosts (local a))"
    and xs: "post_images (getPosts (local a) ! k) = Some (JArr xs)"
  shows "\<exists>ys. getPosts (local (migrateOldData e a)) ! k
              = (getPosts (local a) ! k)\<lparr>post_images := Some (JArr ys)\<rparr>
          \<and> length ys = length xs
          \<and> (\<forall>j < length xs.
               (\<not> is_inline (xs ! j) \<longrightarrow> ys ! j = xs ! j)
             \<and> (\<forall>d. xs ! j = JStr d \<and> startsWith d ''data:image'' \<longrightarrow>
                  (\<forall>imageId.
                     fst (fetch_and_save e d
                       (mig_db (snd (migrate_images e (take j xs) (before_post e a k)))))
                       = Inr imageId \<longrightarrow> ys ! j = JStr imageId)
                \<and> (\<forall>err.
                     fst (fetch_and_save e d
                       (mig_db (snd (migrate_images e (take j xs) (before_post e a k)))))
                       = Inl err \<longrightarrow> ys ! j = JStr d))
             \<and> mig_db (snd (migrate_images e (take (Suc j) xs) (before_post e a k)))
                 = (if is_inline (xs ! j)
                    then snd (fetch_and_save e (str_of (xs ! j))
                           (mig_db (snd (migrate_images e (take j xs) (before_post e a k)))))
                    else mig_db (snd (migrate_images e (take j xs) (before_post e a k)))))
          \<and> before_post e a (Suc k) = snd (migrate_images e xs (before_post e a k))"
proof -
  let ?p = "getPosts (local a) ! k"
  let ?m = "before_post e a k"
  let ?ys = "fst (migrate_images e xs ?m)"
  have arr: "image_array ?p = Some xs" using xs by (simp add: image_array_Some)
  have 1: "getPosts (local (migrateOldData e a)) ! k = ?p\<lparr>post_images := Some (JArr ?ys)\<rparr>"
    by (simp add: stored_post_nth [OF k] migrate_post_array [OF arr])
  have 2: "length ?ys = length xs" by (rule migrate_images_length)
  have 3: "(\<not> is_inline (xs ! j) \<longrightarrow> ?ys ! j = xs ! j)
         \<and> (\<forall>d. xs ! j = JStr d \<and> startsWith d ''data:image'' \<longrightarrow>
              (\<forall>imageId.
                 fst (fetch_and_save e d (mig_db (snd (migrate_images e (take j xs) ?m))))
                   = Inr imageId \<longrightarrow> ?ys ! j = JStr imageId)
            \<and> (\<forall>err.
                 fst (fetch_and_save e d (mig_db (snd (migrate_images e (take j xs) ?m))))
                   = Inl err \<longrightarrow> ?ys ! j = JStr d))
         \<and> mig_db (snd (migrate_images e (take (Suc j) xs) ?m))
             = (if is_inline (xs ! j)
                then snd (fetch_and_save e (str_of (xs ! j))
                       (mig_db (snd (migrate_images e (take j xs) ?m))))
                else mig_db (snd (migrate_images e (take j xs) ?m)))"
    if j: "j < length xs" for j
  proof (intro conjI allI impI)
    assume "\<not> is_inline (xs ! j)"
    then show "?ys ! j = xs ! j"
      by (simp add: migrate_images_nth [OF j] migrate_image_not_inline)
  next
    fix d imageId
    assume "xs ! j = JStr d \<and> startsWith d ''data:image''"
      and "fst (fetch_and_save e d (mig_db (snd (migrate_images e (take j xs) ?m)))) = Inr imageId"
    then show "?ys ! j = JStr imageId"
      by (simp add: migrate_images_nth [OF j] migrate_image_converted)
  next
    fix d err
    assume "xs ! j = JStr d \<and> startsWith d ''data:image''"
      and "fst (fetch_and_save e d (mig_db (snd (migrate_images e (take j xs) ?m)))) = Inl err"
    then show "?ys ! j = JStr d"
      by (simp add: migrate_images_nth [OF j] migrate_image_retained [of d e _ err])
  next
    show "mig_db (snd (migrate_images e (take (Suc j) xs) ?m))
        = (if is_inline (xs ! j)
           then snd (fetch_and_save e (str_of (xs ! j))
                  (mig_db (snd (migrate_images e (take j xs) ?m))))
           else mig_db (snd (migrate_images e (take j xs) ?m)))"
      by (simp only: migrate_images_take_Suc [OF j] mig_db_migrate_image)
  qed
  have 4: "before_post e a (Suc k) = snd (migrate_images e xs ?m)"
    by (simp add: before_post_Suc [OF k] migrate_post_array [OF arr])
  from 1 2 3 4 show ?thesis by blast
qed

text \<open>What the pass stores for a post without an image array.\<close>

lemma stored_other_post:
  assumes k: "k < length (getPosts (local a))"
    and na: "\<forall>xs. post_images (getPosts (local a) ! k) \<noteq> Some (JArr xs)"
  shows "(\<forall>d. post_image (getPosts (local a) ! k) = Some (JStr d) \<and> startsWith d ''data:image''
            \<longrightarrow>
              (\<forall>imageId. fst (fetch_and_save e d (mig_db (before_post e a k))) = Inr imageId \<longrightarrow>
                 getPosts (local (migrateOldData e a)) ! k
                   = (getPosts (local a) ! k)\<lparr>post_images := Some (JArr [JStr imageId]),
                                                 post_image := None\<rparr>)
            \<and> (\<forall>err. fst (fetch_and_save e d (mig_db (before_post e a k))) = Inl err \<longrightarrow>
                 getPosts (local (migrateOldData e a)) ! k = getPosts (local a) ! k)
            \<and> mig_db (before_post e a (Suc k))
                = snd (fetch_and_save e d (mig_db (before_post e a k))))
       \<and> ((\<forall>d. post_image (getPosts (local a) ! k) = Some (JStr d)
              \<longrightarrow> \<not> startsWith d ''data:image'')
            \<longrightarrow> getPosts (local (migrateOldData e a)) ! k = getPosts (local a) ! k
              \<and> before_post e a (Suc k) = before_post e a k)"
proof -
  let ?p = "getPosts (local a) ! k"
  let ?m = "before_post e a k"
  have arr: "image_array ?p = None" using na by (simp add: image_array_None)
  note st = stored_post_nth [OF k, of e]
  note nx = before_post_Suc [OF k, of e]
  show ?thesis
  proof (intro conjI allI impI)
    fix d imageId
    assume "post_image ?p = Some (JStr d) \<and> startsWith d ''data:image''"
      and ok: "fst (fetch_and_save e d (mig_db ?m)) = Inr imageId"
    then have li: "legacy_inline ?p = Some d" by (simp add: legacy_inline_Some)
    show "getPosts (local (migrateOldData e a)) ! k
        = ?p\<lparr>post_images := Some (JArr [JStr imageId]), post_image := None\<rparr>"
      by (simp only: st migrate_post_legacy_converted [OF arr li ok])
  next
    fix d err
    assume "post_image ?p = Some (JStr d) \<and> startsWith d ''data:image''"
      and bad: "fst (fetch_and_save e d (mig_db ?m)) = Inl err"
    then have li: "legacy_inline ?p = Some d" by (simp add: legacy_inline_Some)
    show "getPosts (local (migrateOldData e a)) ! k = ?p"
      by (simp only: st migrate_post_legacy_retained [OF arr li bad])
  next
    fix d
    assume "post_image ?p = Some (JStr d) \<and> startsWith d ''data:image''"
    then have li: "legacy_inline ?p = Some d" by (simp add: legacy_inline_Some)
    show "mig_db (before_post e a (Suc k)) = snd (fetch_and_save e d (mig_db ?m))"
      by (simp only: nx mig_db_migrate_post_legacy [OF arr li])
  next
    assume "\<forall>d. post_image ?p = Some (JStr d) \<longrightarrow> \<not> startsWith d ''data:image''"
    then have li: "legacy_inline ?p = None" by (simp add: legacy_inline_None)
    show "getPosts (local (migrateOldData e a)) ! k = ?p"
      by (simp add: st migrate_post_other [OF arr li])
  next
    assume "\<forall>d. post_image ?p = Some (JStr d) \<longrightarrow> \<not> startsWith d ''data:image''"
    then have li: "legacy_inline ?p = None" by (simp add: legacy_inline_None)
    show "before_post e a (Suc k) = ?m"
      by (simp add: nx migrate_post_other [OF arr li])
  qed
qed

section \<open>Facts about the URL cache\<close>

lemma saveImageBlob_dom:
  "objects db k \<noteq> None \<Longrightarrow> objects (snd (saveImageBlob e file db)) k \<noteq> None"
  by (simp add: saveImageBlob_def Let_def split: idb_outcome.splits)

lemma getImageBlob_objects: "objects (snd (getImageBlob e x db)) = objects db"
  by (simp add: getImageBlob_def Let_def split: idb_outcome.splits jv.splits option.splits)

lemma getImageBlob_Inr:
  "getImageBlob e x db = (Inr b, db') \<Longrightarrow>
   \<exists>k. x = JStr k \<and> objects db k = Some b \<and> idb_result e (idb_ops db) = Completed"
  by (auto simp: getImageBlob_def Let_def split: idb_outcome.splits jv.splits option.splits)

lemma getImageBlob_present:
  "objects db k = Some b \<Longrightarrow> idb_result e (idb_ops db) = Completed \<Longrightarrow>
   getImageBlob e (JStr k) db = (Inr b, db\<lparr>idb_ops := Suc (idb_ops db)\<rparr>)"
  by (simp add: getImageBlob_def Let_def)

lemma getImageBlob_absent:
  "\<forall>k. x = JStr k \<longrightarrow> objects db k = None \<Longrightarrow> \<exists>err. fst (getImageBlob e x db) = Inl err"
  by (auto simp: getImageBlob_def Let_def split: idb_outcome.splits jv.splits option.splits)

lemma getImageBlob_not_completed:
  "idb_result e (idb_ops db) \<noteq> Completed \<Longrightarrow> \<exists>err. fst (getImageBlob e x db) = Inl err"
  by (auto simp: getImageBlob_def Let_def split: idb_outcome.splits)

lemma deleteAllImages_failed:
  "idb_result e (idb_ops db) \<noteq> Completed \<Longrightarrow>
   \<exists>err. deleteAllImages e db = (Inl err, db\<lparr>idb_ops := Suc (idb_ops db)\<rparr>)"
  by (cases "idb_result e (idb_ops db)") (simp_all add: deleteAllImages_def Let_def)

lemma deleteAllImages_completed:
  "idb_result e (idb_ops db) = Completed \<Longrightarrow>
   deleteAllImages e db = (Inr (), db\<lparr>idb_ops := Suc (idb_ops db), objects := Map.empty\<rparr>)"
  by (simp add: deleteAllImages_def Let_def)

lemma cache_okI:
  assumes "cache_ok a"
    and "\<And>x u. imageUrlCache a' x = Some u \<Longrightarrow> imageUrlCache a x = Some u"
    and "\<And>k. objects (idb a) k \<noteq> None \<Longrightarrow> objects (idb a') k \<noteq> None"
  shows "cache_ok a'"
  unfolding cache_ok_def
proof (intro allI impI)
  fix x u
  assume "imageUrlCache a' x = Some u"
  then have "imageUrlCache a x = Some u" by (rule assms(2))
  with assms(1) obtain k where "x = JStr k" "\<not> startsWith k ''data:image''"
      "objects (idb a) k \<noteq> None" "startsWith u ''blob:''"
    unfolding cache_ok_def by blast
  with assms(3) [of k]
  show "(\<exists>k. x = JStr k \<and> \<not> startsWith k ''data:image'' \<and> objects (idb a') k \<noteq> None)
          \<and> startsWith u ''blob:''"
    by blast
qed

lemma cache_ok_resolve:
  assumes ok: "cache_ok a"
  shows "cache_ok (snd (getImageUrl e x a))"
proof (cases "imageUrlCache a x")
  case (Some u)
  with ok show ?thesis by (simp add: getImageUrl_def)
next
  case None
  show ?thesis
  proof (cases "is_inline x")
    case True
    with None ok show ?thesis by (simp add: getImageUrl_def)
  next
    case False
    obtain r db' where r: "getImageBlob e x (idb a) = (r, db')"
      by (cases "getImageBlob e x (idb a)")
    have o: "objects db' = objects (idb a)"
      using getImageBlob_objects [of e x "idb a"] r by simp
    show ?thesis
    proof (cases r)
      case (Inl err)
      with None False r have "snd (getImageUrl e x a) = a\<lparr>idb := db'\<rparr>"
        by (simp add: getImageUrl_def)
      moreover have "cache_ok (a\<lparr>idb := db'\<rparr>)"
        by (rule cache_okI [OF ok]) (simp_all add: o)
      ultimately show ?thesis by simp
    next
      case (Inr b)
      let ?url = "''blob:'' @ object_url e (urls_created a)"
      let ?a' = "a\<lparr>idb := db', imageUrlCache := (imageUrlCache a)(x \<mapsto> ?url),
                   urls_created := Suc (urls_created a)\<rparr>"
      from Inr r getImageBlob_Inr obtain k where k: "x = JStr k" "objects (idb a) k = Some b"
        by blast
      with False have nk: "\<not> startsWith k ''data:image''" by (simp add: is_inline_def)
      from None False r Inr have s: "snd (getImageUrl e x a) = ?a'"
        by (simp add: getImageUrl_def Let_def)
      have "cache_ok ?a'"
        unfolding cache_ok_def
      proof (intro allI impI)
        fix y u
        assume yu: "imageUrlCache ?a' y = Some u"
        show "(\<exists>k. y = JStr k \<and> \<not> startsWith k ''data:image'' \<and> objects (idb ?a') k \<noteq> None)
                \<and> startsWith u ''blob:''"
        proof (cases "y = x")
          case True
          with yu have "u = ?url" by simp
          with True k nk o show ?thesis by simp
        next
          case ne: False
          with yu have "imageUrlCache a y = Some u" by simp
          with ok obtain k' where "y = JStr k'" "\<not> startsWith k' ''data:image''"
              "objects (idb a) k' \<noteq> None" "startsWith u ''blob:''"
            unfolding cache_ok_def by blast
          with o show ?thesis by simp
        qed
      qed
      with s show ?thesis by simp
    qed
  qed
qed

lemma cache_ok_revoke:
  assumes ok: "cache_ok a"
  shows "cache_ok (revokeImageUrl x a)"
proof (cases "imageUrlCache a x")
  case None
  with ok show ?thesis by (simp add: revokeImageUrl_def)
next
  case (Some url)
  then have "revokeImageUrl x a
      = a\<lparr>revoked := insert url (revoked a), imageUrlCache := (imageUrlCache a)(x := None)\<rparr>"
    by (simp add: revokeImageUrl_def)
  moreover have "cache_ok (a\<lparr>revoked := insert url (revoked a),
                             imageUrlCache := (imageUrlCache a)(x := None)\<rparr>)"
    by (rule cache_okI [OF ok]) (simp_all split: if_splits)
  ultimately show ?thesis by simp
qed

lemma cache_ok_clear:
  assumes ok: "cache_ok a"
  shows "cache_ok (handleClearImages e c a)"
proof (cases c)
  case False
  with ok show ?thesis by (simp add: handleClearImages_def)
next
  case True
  show ?thesis
  proof (cases "idb_result e (idb_ops (idb a)) = Completed")
    case completed: True
    from deleteAllImages_completed [OF completed] True show ?thesis
      by (simp add: handleClearImages_def cache_ok_def)
  next
    case False
    from deleteAllImages_failed [OF False] obtain err where
      "deleteAllImages e (idb a) = (Inl err, (idb a)\<lparr>idb_ops := Suc (idb_ops (idb a))\<rparr>)"
      by blast
    with True have "handleClearImages e c a = a\<lparr>idb := (idb a)\<lparr>idb_ops := Suc (idb_ops (idb a))\<rparr>\<rparr>"
      by (simp add: handleClearImages_def)
    moreover have "cache_ok (a\<lparr>idb := (idb a)\<lparr>idb_ops := Suc (idb_ops (idb a))\<rparr>\<rparr>)"
      by (rule cache_okI [OF ok]) simp_all
    ultimately show ?thesis by simp
  qed
qed

lemma cache_ok_migrate:
  assumes ok: "cache_ok a"
  shows "cache_ok (migrateOldData e a)"
proof -
  have c: "imageUrlCache (migrateOldData e a) = imageUrlCache a"
    by (simp add: migrateOldData_def split_beta)
  have "dom (objects (idb a)) \<subseteq> dom (objects (idb (migrateOldData e a)))"
    using migrate_posts_dom
      [of "\<lparr>mig_db = idb a, migrationCount = 0, failed = 0\<rparr>" e "getPosts (local a)"]
    by (simp add: idb_migrateOldData migration_run_def)
  then have d: "objects (idb a) k \<noteq> None \<Longrightarrow> objects (idb (migrateOldData e a)) k \<noteq> None" for k
    by (auto simp: dom_def)
  show ?thesis
    by (rule cache_okI [OF ok]) (simp_all add: c d)
qed

lemma cache_ok_upload:
  assumes ok: "cache_ok a"
  shows "cache_ok (a\<lparr>idb := snd (saveImageBlob e blob_file (idb a))\<rparr>)"
  by (rule cache_okI [OF ok]) (simp_all add: saveImageBlob_dom)

lemma reachable_cache_ok: "reachable a \<Longrightarrow> cache_ok a"
proof (induction rule: reachable.induct)
  case (start a)
  then show ?case by (simp add: cache_ok_def)
next
  case (data a s)
  show ?case by (rule cache_okI [OF data.IH]) simp_all
next
  case (upload a e f)
  show ?case by (rule cache_ok_upload [OF upload.IH])
next
  case (migrate a e)
  show ?case by (rule cache_ok_migrate [OF migrate.IH])
next
  case (resolve a e imageId)
  show ?case by (rule cache_ok_resolve [OF resolve.IH])
next
  case (revoke a imageId)
  show ?case by (rule cache_ok_revoke [OF revoke.IH])
next
  case (clear a e confirmed)
  show ?case by (rule cache_ok_clear [OF clear.IH])
qed

lemma resolve_inline:
  assumes ok: "cache_ok a" and d: "startsWith d ''data:image''"
  shows "getImageUrl e (JStr d) a = (d, a)"
proof -
  have "imageUrlCache a (JStr d) = None"
  proof (rule ccontr)
    assume "imageUrlCache a (JStr d) \<noteq> None"
    then obtain u where "imageUrlCache a (JStr d) = Some u" by blast
    with ok obtain k where "JStr d = JStr k" "\<not> startsWith k ''data:image''"
      unfolding cache_ok_def by blast
    with d show False by simp
  qed
  with d show ?thesis by (simp add: getImageUrl_def is_inline_def str_of_def)
qed

lemma resolve_uncached_failure:
  assumes "\<not> is_inline x" and "imageUrlCache a x = None"
    and "fst (getImageBlob e x (idb a)) = Inl err"
  shows "fst (getImageUrl e x a) = []"
  using assms by (cases "getImageBlob e x (idb a)") (simp add: getImageUrl_def)

lemma resolve_absent:
  assumes ok: "cache_ok a" and ni: "\<not> is_inline x"
    and ab: "\<forall>k. x = JStr k \<longrightarrow> objects (idb a) k = None"
  shows "fst (getImageUrl e x a) = []"
proof -
  have nc: "imageUrlCache a x = None"
  proof (rule ccontr)
    assume "imageUrlCache a x \<noteq> None"
    then obtain u where "imageUrlCache a x = Some u" by blast
    with ok obtain k where "x = JStr k" "objects (idb a) k \<noteq> None"
      unfolding cache_ok_def by blast
    with ab show False by simp
  qed
  from getImageBlob_absent [OF ab, of e] obtain err where
    "fst (getImageBlob e x (idb a)) = Inl err" by blast
  from resolve_uncached_failure [OF ni nc this] show ?thesis .
qed

lemma resolve_cached:
  "imageUrlCache a x = Some u \<Longrightarrow> getImageUrl e x a = (u, a)"
  by (simp add: getImageUrl_def)

lemma resolve_present:
  assumes ni: "\<not> startsWith k ''data:image''" and nc: "imageUrlCache a (JStr k) = None"
    and pr: "objects (idb a) k = Some b"
    and io: "idb_result e (idb_ops (idb a)) = Completed"
  shows "getImageUrl e (JStr k) a =
           (''blob:'' @ object_url e (urls_created a),
            a\<lparr>idb := (idb a)\<lparr>idb_ops := Suc (idb_ops (idb a))\<rparr>,
              imageUrlCache := (imageUrlCache a)(JStr k \<mapsto> ''blob:'' @ object_url e (urls_created a)),
              urls_created := Suc (urls_created a)\<rparr>)"
  using ni nc by (simp add: getImageUrl_def is_inline_def getImageBlob_present [OF pr io] Let_def)


section \<open>Unfolding the concrete inputs\<close>

lemmas ex_defs = ex_inline_def ex_env_def ex_env_two_fail_def ex_env_closed_def
  ex_post_array_def ex_post_legacy_def ex_post_both_def ex_post_three_def ex_app_def ex_app_stored_def
  ex_likes_def ex_user_def empty_storage_def

lemmas run_defs = migrateOldData_def migration_run_def getPosts_def migrate_post_def
  migrate_image_def fetch_and_save_def saveImageBlob_def before_post_def Let_def

section \<open>Initialisation\<close>

text \<open>
  C10. On a store where none of the keys is set, \<open>init\<close> leaves exactly one user,
  the default one with username \<open>default\<close>, in the users collection, and sets
  posts, comments and likes to the empty array; no session user is set.
\<close>

theorem init_on_empty_storage:
  "getUsers (init now isoTime empty_storage) =
     [\<lparr>user_id = ''user_'' @ show_nat now, username = ''default'',
       bio = ''Architecture enthusiast'', user_createdAt = isoTime\<rparr>]
   \<and> getUsers (init now isoTime empty_storage) \<noteq> []
   \<and> architecture_log_posts (init now isoTime empty_storage) = Some []
   \<and> architecture_log_comments (init now isoTime empty_storage) = Some []
   \<and> architecture_log_likes (init now isoTime empty_storage) = Some []
   \<and> getCurrentUser (init now isoTime empty_storage) = None"
  by (simp add: init_def empty_storage_def getUsers_def getCurrentUser_def Let_def)

section \<open>Session user\<close>

text \<open>
  C8. \<open>setCurrentUser u\<close> sets the session pointer, so that \<open>getCurrentUser\<close>
  returns \<open>u\<close> afterwards, and upserts \<open>u\<close> into the stored user collection: the
  collection afterwards is the one \<open>saveUser u\<close> produces and contains \<open>u\<close>.
\<close>

theorem setCurrentUser_sets_and_persists:
  "getCurrentUser (setCurrentUser u s) = Some u
   \<and> getUsers (setCurrentUser u s) = getUsers (saveUser u s)
   \<and> u \<in> set (getUsers (setCurrentUser u s))
   \<and> architecture_log_users (setCurrentUser u s) = Some (getUsers (setCurrentUser u s))"
  by (auto simp: setCurrentUser_def getCurrentUser_def saveUser_def getUsers_def Let_def
      findIndex_nonneg set_update_memI)

section \<open>Deleting a post\<close>

text \<open>
  C4. \<open>deletePost postId\<close> removes every post whose identifier is \<open>postId\<close> and
  every comment and like whose \<open>postId\<close> is \<open>postId\<close>; the other posts, comments
  and likes stay as they were, in their order; users and the session user are
  not touched.
\<close>

theorem deletePost_cascade:
  "getPosts (deletePost postId s) = filter (\<lambda>p. post_id p \<noteq> postId) (getPosts s)
   \<and> getComments None (deletePost postId s)
       = filter (\<lambda>c. comment_postId c \<noteq> postId) (getComments None s)
   \<and> getLikes None (deletePost postId s)
       = filter (\<lambda>l. like_postId l \<noteq> postId) (getLikes None s)
   \<and> architecture_log_users (deletePost postId s) = architecture_log_users s
   \<and> current_user (deletePost postId s) = current_user s"
  by (simp add: deletePost_def getPosts_def getComments_def getLikes_def Let_def)

section \<open>Sequences of upserts\<close>

text \<open>
  C3. After any sequence of \<open>saveUser\<close> calls on a store whose user collection
  reads as empty, \<open>getUsers\<close> returns one record per distinct identifier, in the
  order in which the identifiers first occurred, and the record for an
  identifier is the last one saved with it. The same holds for \<open>savePost\<close> and
  \<open>getPosts\<close> on a store whose post collection reads as empty, whatever the
  other collections hold. (\<open>remdups\<close> keeps the last occurrence of each element, so between
  the two reversals it keeps the first.)
\<close>

theorem upsert_sequence_readAll:
  "(getUsers s = [] \<longrightarrow>
      getUsers (fold saveUser us s)
        = map (\<lambda>k. last (filter (\<lambda>u. user_id u = k) us)) (rev (remdups (rev (map user_id us)))))
   \<and> (getPosts s = [] \<longrightarrow>
      getPosts (fold savePost ps s)
        = map (\<lambda>k. last (filter (\<lambda>p. post_id p = k) ps)) (rev (remdups (rev (map post_id ps)))))"
proof (intro conjI impI)
  assume "getUsers s = []"
  then show "getUsers (fold saveUser us s)
      = map (\<lambda>k. last (filter (\<lambda>u. user_id u = k) us)) (rev (remdups (rev (map user_id us))))"
    using fold_upsert_from_empty [of user_id us]
    by (simp add: getUsers_fold_saveUser latest_def first_occurrences_def cong: map_cong)
next
  assume "getPosts s = []"
  then show "getPosts (fold savePost ps s)
      = map (\<lambda>k. last (filter (\<lambda>p. post_id p = k) ps)) (rev (remdups (rev (map post_id ps))))"
    using fold_upsert_from_empty [of post_id ps]
    by (simp add: getPosts_fold_savePost latest_def first_occurrences_def cong: map_cong)
qed

text \<open>Three saves with two distinct identifiers: of users on the store with no
  key set, and of posts on the store that \<open>init\<close> leaves, which holds a user.\<close>

theorem upsert_sequence_readAll_witness:
  "getUsers empty_storage = []
   \<and> getUsers (fold saveUser [ex_user ''user_1'' ''old'', ex_user ''user_2'' ''two'',
                               ex_user ''user_1'' ''new''] empty_storage)
       = [ex_user ''user_1'' ''new'', ex_user ''user_2'' ''two'']
   \<and> getUsers (init 1700000000000 ''2024-01-01T00:00:00.000Z'' empty_storage) \<noteq> []
   \<and> getPosts (init 1700000000000 ''2024-01-01T00:00:00.000Z'' empty_storage) = []
   \<and> getPosts (fold savePost [ex_post_array, ex_post_legacy,
                               ex_post_array\<lparr>post_images := Some (JArr [])\<rparr>]
                 (init 1700000000000 ''2024-01-01T00:00:00.000Z'' empty_storage))
       = [ex_post_array\<lparr>post_images := Some (JArr [])\<rparr>, ex_post_legacy]"
proof -
  let ?s = "init 1700000000000 ''2024-01-01T00:00:00.000Z'' empty_storage"
  have hu: "getUsers empty_storage = []"
    by (simp add: getUsers_def empty_storage_def)
  have nu: "getUsers ?s \<noteq> []"
    by (simp add: getUsers_def init_def empty_storage_def Let_def)
  have hp: "getPosts ?s = []"
    by (simp add: getPosts_def init_def empty_storage_def Let_def)
  note users = upsert_sequence_readAll [THEN conjunct1, THEN mp, OF hu,
      of "[ex_user ''user_1'' ''old'', ex_user ''user_2'' ''two'', ex_user ''user_1'' ''new'']"]
  note posts = upsert_sequence_readAll [THEN conjunct2, THEN mp, OF hp,
      of "[ex_post_array, ex_post_legacy, ex_post_array\<lparr>post_images := Some (JArr [])\<rparr>]"]
  from users posts hu nu hp show ?thesis
    by (simp add: ex_user_def ex_post_array_def ex_post_legacy_def)
qed

section \<open>Likes\<close>

text \<open>
  C9. Starting from a store whose like collection reads as empty, after any
  sequence of \<open>toggleLike\<close> calls no two likes in the collection have the same
  post identifier and user identifier.
\<close>

theorem at_most_one_like_per_pair:
  "getLikes None s = [] \<Longrightarrow>
   distinct (map (\<lambda>l. (like_postId l, like_userId l))
     (getLikes None (fold (\<lambda>(p, u, t). toggleLike p u t) calls s)))"
  using distinct_fold_toggleLike [of s calls] by (simp add: like_key_def [abs_def])

text \<open>Four toggles on two pairs, from the store with no key set.\<close>

theorem at_most_one_like_per_pair_witness:
  "getLikes None empty_storage = []
   \<and> distinct (map (\<lambda>l. (like_postId l, like_userId l))
       (getLikes None
         (fold (\<lambda>(p, u, t). toggleLike p u t)
            [(''post_1'', ''user_A'', ''t1''), (''post_1'', ''user_B'', ''t2''),
             (''post_1'', ''user_A'', ''t3''), (''post_1'', ''user_A'', ''t4'')]
            empty_storage)))"
proof -
  have h: "getLikes None empty_storage = []"
    by (simp add: getLikes_def empty_storage_def)
  show ?thesis
    by (rule conjI [OF h at_most_one_like_per_pair [OF h]])
qed

text \<open>
  C2, as amended. Let the like collection hold at most one like per pair and
  let \<open>p\<close> be a non-empty string. After one \<open>toggleLike p u\<close>, \<open>isLiked p u\<close> is
  true exactly if it was false before. After two calls in succession the
  collection is the one before the calls if the pair was not liked before;
  if it was liked, the collection is the one before the calls with the like
  of the pair taken out and a new like of the pair, stamped by the second
  call, appended at the end.
\<close>

theorem toggleLike_once_and_twice:
  assumes "distinct (map (\<lambda>l. (like_postId l, like_userId l)) (getLikes None s))"
    and "p \<noteq> []"
  shows "(isLiked p u (toggleLike p u t1 s) \<longleftrightarrow> \<not> isLiked p u s)
       \<and> (\<not> isLiked p u s \<longrightarrow>
            getLikes None (toggleLike p u t2 (toggleLike p u t1 s)) = getLikes None s)
       \<and> (isLiked p u s \<longrightarrow>
            getLikes None (toggleLike p u t2 (toggleLike p u t1 s))
              = filter (\<lambda>l. \<not> (like_postId l = p \<and> like_userId l = u)) (getLikes None s)
                @ [\<lparr>like_postId = p, like_userId = u, like_createdAt = t2\<rparr>])"
proof -
  let ?likes = "getLikes None s"
  let ?new = "\<lambda>t. \<lparr>like_postId = p, like_userId = u, like_createdAt = t\<rparr>"
  have d: "distinct (map like_key ?likes)"
    using assms(1) by (simp add: like_key_def [abs_def])
  have liked: "isLiked p u s' \<longleftrightarrow> (\<exists>l \<in> set (getLikes None s'). like_key l = (p, u))" for s'
    using assms(2) by (simp add: isLiked_iff like_key_eq)
  show ?thesis
  proof (cases "\<exists>l \<in> set ?likes. like_key l = (p, u)")
    case True
    have one: "toggle p u t1 ?likes = filter (\<lambda>l. like_key l \<noteq> (p, u)) ?likes"
      by (rule toggle_present [OF d True])
    have gone: "\<forall>l \<in> set (toggle p u t1 ?likes). like_key l \<noteq> (p, u)"
      by (simp add: one)
    have two: "toggle p u t2 (toggle p u t1 ?likes) = toggle p u t1 ?likes @ [?new t2]"
      by (rule toggle_absent [OF gone])
    have "\<not> isLiked p u (toggleLike p u t1 s)"
      using gone by (simp add: liked getLikes_toggleLike)
    moreover have "isLiked p u s" using True by (simp add: liked)
    moreover have "getLikes None (toggleLike p u t2 (toggleLike p u t1 s))
        = filter (\<lambda>l. \<not> (like_postId l = p \<and> like_userId l = u)) ?likes @ [?new t2]"
      using two one by (simp add: getLikes_toggleLike like_key_eq)
    ultimately show ?thesis by simp
  next
    case False
    then have a: "\<forall>l \<in> set ?likes. like_key l \<noteq> (p, u)" by simp
    have one: "toggle p u t1 ?likes = ?likes @ [?new t1]"
      by (rule toggle_absent [OF a])
    have idx: "findIndex (\<lambda>l. like_postId l = p \<and> like_userId l = u) (?likes @ [?new t1])
                 = int (length ?likes)"
      using a by (intro findIndex_snoc_fresh) (simp_all add: like_key_eq)
    have "toggle p u t2 (?likes @ [?new t1]) = ?likes"
      by (simp add: toggle_def idx splice1_length)
    then have two: "toggle p u t2 (toggle p u t1 ?likes) = ?likes"
      by (simp only: one)
    have "isLiked p u (toggleLike p u t1 s)"
      by (simp add: liked getLikes_toggleLike one like_key_def)
    moreover have "\<not> isLiked p u s" using False by (simp add: liked)
    moreover have "getLikes None (toggleLike p u t2 (toggleLike p u t1 s)) = ?likes"
      using two by (simp add: getLikes_toggleLike)
    ultimately show ?thesis by simp
  qed
qed

text \<open>On the two example likes: a pair that is liked and one that is not.\<close>

theorem toggleLike_once_and_twice_witness:
  "distinct (map (\<lambda>l. (like_postId l, like_userId l)) (getLikes None ex_likes))
   \<and> ''post_1'' \<noteq> []
   \<and> isLiked ''post_1'' ''user_A'' ex_likes
   \<and> \<not> isLiked ''post_1'' ''user_A'' (toggleLike ''post_1'' ''user_A'' ''t1'' ex_likes)
   \<and> getLikes None (toggleLike ''post_1'' ''user_A'' ''t2''
                      (toggleLike ''post_1'' ''user_A'' ''t1'' ex_likes))
       = [\<lparr>like_postId = ''post_2'', like_userId = ''user_B'',
            like_createdAt = ''2024-01-02T00:00:00.000Z''\<rparr>,
          \<lparr>like_postId = ''post_1'', like_userId = ''user_A'', like_createdAt = ''t2''\<rparr>]
   \<and> \<not> isLiked ''post_1'' ''user_B'' ex_likes
   \<and> isLiked ''post_1'' ''user_B'' (toggleLike ''post_1'' ''user_B'' ''t1'' ex_likes)
   \<and> getLikes None (toggleLike ''post_1'' ''user_B'' ''t2''
                      (toggleLike ''post_1'' ''user_B'' ''t1'' ex_likes))
       = getLikes None ex_likes"
proof -
  have d: "distinct (map (\<lambda>l. (like_postId l, like_userId l)) (getLikes None ex_likes))"
    by (simp add: getLikes_def ex_likes_def empty_storage_def)
  have p: "''post_1'' \<noteq> []" by simp
  have a: "isLiked ''post_1'' ''user_A'' ex_likes"
    by (simp add: isLiked_def getLikes_def ex_likes_def empty_storage_def)
  have b: "\<not> isLiked ''post_1'' ''user_B'' ex_likes"
    by (simp add: isLiked_def getLikes_def ex_likes_def empty_storage_def)
  have l: "getLikes None ex_likes
      = [\<lparr>like_postId = ''post_1'', like_userId = ''user_A'',
           like_createdAt = ''2024-01-01T00:00:00.000Z''\<rparr>,
         \<lparr>like_postId = ''post_2'', like_userId = ''user_B'',
           like_createdAt = ''2024-01-02T00:00:00.000Z''\<rparr>]"
    by (simp add: getLikes_def ex_likes_def empty_storage_def)
  from toggleLike_once_and_twice [OF d p, of "''user_A''" "''t1''" "''t2''"]
       toggleLike_once_and_twice [OF d p, of "''user_B''" "''t1''" "''t2''"]
  show ?thesis
    using d a b by (simp add: l)
qed

text \<open>
  The claim as it was stated fails. Toggling a liked pair twice leaves its like
  at the end of the collection instead of at its place, whatever the clock
  says; and for the empty post identifier \<open>isLiked\<close> looks at the likes of all
  posts, so it is true before and after a toggle when the user has liked some
  other post.
\<close>

theorem toggleLike_twice_counterexample:
  "getLikes None (toggleLike ''post_1'' ''user_A'' ''2024-01-03T00:00:00.000Z''
                   (toggleLike ''post_1'' ''user_A'' ''2024-01-03T00:00:00.000Z'' ex_likes))
     \<noteq> getLikes None ex_likes
   \<and> isLiked [] ''user_B'' ex_likes
   \<and> isLiked [] ''user_B'' (toggleLike [] ''user_B'' ''2024-01-03T00:00:00.000Z'' ex_likes)"
  by (simp add: toggleLike_def getLikes_def isLiked_def ex_likes_def empty_storage_def
      splice1_def Let_def)

section \<open>Migration\<close>

text \<open>
  C1. If no conversion failed in a run of \<open>migrateOldData\<close>, a second run right
  after it, in any environment, changes nothing: the application state after
  the second run is the state after the first, so the stored posts are the
  same, the second run migrates no image, and the database has seen no
  further operation and holds the same blobs.
\<close>

theorem migrateOldData_twice:
  assumes "failed (snd (migration_run e a)) = 0"
  shows "migrateOldData e' (migrateOldData e a) = migrateOldData e a
       \<and> getPosts (local (migrateOldData e' (migrateOldData e a)))
           = getPosts (local (migrateOldData e a))
       \<and> migrationCount (snd (migration_run e' (migrateOldData e a))) = 0
       \<and> idb_ops (idb (migrateOldData e' (migrateOldData e a)))
           = idb_ops (idb (migrateOldData e a))
       \<and> objects (idb (migrateOldData e' (migrateOldData e a)))
           = objects (idb (migrateOldData e a))"
proof -
  let ?a1 = "migrateOldData e a"
  let ?m0 = "\<lparr>mig_db = idb ?a1, migrationCount = 0, failed = 0\<rparr>"
  have "list_all settled_post (fst (migration_run e a))"
    unfolding migration_run_def
    by (rule migrate_posts_no_failure) (use assms in \<open>simp add: migration_run_def\<close>)
  then have "list_all settled_post (getPosts (local ?a1))"
    by (simp add: getPosts_migrateOldData)
  then have run2: "migration_run e' ?a1 = (getPosts (local ?a1), ?m0)"
    by (simp add: migration_run_def migrate_posts_settled)
  then have "migrateOldData e' ?a1 = ?a1"
    by (simp add: migrateOldData_def [of e' ?a1])
  with run2 show ?thesis by simp
qed

text \<open>Three images are migrated by the first run; the second run is given a
  database that cannot be opened and does not notice.\<close>

theorem migrateOldData_twice_witness:
  "failed (snd (migration_run ex_env (ex_app [ex_post_array, ex_post_legacy]))) = 0
   \<and> idb_ops (idb (migrateOldData ex_env (ex_app [ex_post_array, ex_post_legacy]))) = 3
   \<and> migrateOldData ex_env_closed (migrateOldData ex_env (ex_app [ex_post_array, ex_post_legacy]))
       = migrateOldData ex_env (ex_app [ex_post_array, ex_post_legacy])
   \<and> idb_ops (idb (migrateOldData ex_env_closed
                     (migrateOldData ex_env (ex_app [ex_post_array, ex_post_legacy])))) = 3"
proof -
  let ?a = "ex_app [ex_post_array, ex_post_legacy]"
  have run: "snd (migration_run ex_env ?a)
      = \<lparr>mig_db = \<lparr>objects =
            [''img_'' @ show_nat 1700000000000 @ ''_k3x9q2m1z'' \<mapsto> [65, 66, 67],
             ''img_'' @ show_nat 1700000000001 @ ''_k3x9q2m1z'' \<mapsto> [65, 66, 67],
             ''img_'' @ show_nat 1700000000002 @ ''_k3x9q2m1z'' \<mapsto> [65, 66, 67]],
            idb_ops = 3\<rparr>,
          migrationCount = 3, failed = 0\<rparr>"
    by (simp add: migration_run_def getPosts_def ex_defs migrate_post_def migrate_image_def
        fetch_and_save_def saveImageBlob_def Let_def)
  then have h: "failed (snd (migration_run ex_env ?a)) = 0" by simp
  have ops: "idb_ops (idb (migrateOldData ex_env ?a)) = 3"
    by (simp add: idb_migrateOldData run)
  from migrateOldData_twice [OF h, of ex_env_closed] h ops show ?thesis by simp
qed

text \<open>
  C5. Let the post at index \<open>k\<close> have an image array whose entry at index \<open>i\<close> is
  inline data, and let fetching or saving it fail when the loop gets there.
  Then the stored post at index \<open>k\<close> after the migration has an image array of
  the same length whose entry at index \<open>i\<close> is still the inline data, and the
  collection keeps its length. The migration goes on with every image and
  every post:
  \<^item> a post with an image array is stored unchanged but for the array, which
    keeps its length; an entry that is not inline data is kept; an inline
    entry is replaced by the generated identifier if fetching and saving it
    succeed in the database as the entries before it left it, and is kept if
    they fail; an inline entry leaves the database as its fetch and save leave
    it, any other entry leaves it alone;
  \<^item> a post without an image array whose legacy field holds inline data is
    converted if fetching and saving succeed in the database as the posts
    before it left it, and stored unchanged if they fail; any other post
    without an image array is stored unchanged and leaves the database alone;
  \<^item> the first post meets the database the application had, and the database
    after the last post is the one the application has afterwards.

  So a failure changes nothing but the entry it leaves inline and the number
  of the operation it used up.
\<close>

theorem failed_image_is_retained:
  assumes "k < length (getPosts (local a))"
    and "post_images (getPosts (local a) ! k) = Some (JArr imgs)"
    and "i < length imgs"
    and "imgs ! i = JStr d"
    and "startsWith d ''data:image''"
    and "fst (fetch_and_save e d
           (mig_db (snd (migrate_images e (take i imgs) (before_post e a k))))) = Inl err"
  shows "(\<exists>imgs'. post_images (getPosts (local (migrateOldData e a)) ! k) = Some (JArr imgs')
            \<and> length imgs' = length imgs
            \<and> imgs' ! i = JStr d)
       \<and> length (getPosts (local (migrateOldData e a))) = length (getPosts (local a))
       \<and> (\<forall>k' < length (getPosts (local a)). \<forall>xs.
             post_images (getPosts (local a) ! k') = Some (JArr xs) \<longrightarrow>
             (\<exists>ys. getPosts (local (migrateOldData e a)) ! k'
                      = (getPosts (local a) ! k')\<lparr>post_images := Some (JArr ys)\<rparr>
                \<and> length ys = length xs
                \<and> (\<forall>j < length xs.
                     (\<not> is_inline (xs ! j) \<longrightarrow> ys ! j = xs ! j)
                   \<and> (\<forall>d'. xs ! j = JStr d' \<and> startsWith d' ''data:image'' \<longrightarrow>
                        (\<forall>imageId.
                           fst (fetch_and_save e d'
                             (mig_db (snd (migrate_images e (take j xs) (before_post e a k')))))
                             = Inr imageId \<longrightarrow> ys ! j = JStr imageId)
                      \<and> (\<forall>err'.
                           fst (fetch_and_save e d'
                             (mig_db (snd (migrate_images e (take j xs) (before_post e a k')))))
                             = Inl err' \<longrightarrow> ys ! j = JStr d'))
                   \<and> mig_db (snd (migrate_images e (take (Suc j) xs) (before_post e a k')))
                       = (if is_inline (xs ! j)
                          then snd (fetch_and_save e (str_of (xs ! j))
                                 (mig_db (snd (migrate_images e (take j xs) (before_post e a k')))))
                          else mig_db (snd (migrate_images e (take j xs) (before_post e a k')))))
                \<and> before_post e a (Suc k') = snd (migrate_images e xs (before_post e a k'))))
       \<and> (\<forall>k' < length (getPosts (local a)).
             (\<forall>xs. post_images (getPosts (local a) ! k') \<noteq> Some (JArr xs)) \<longrightarrow>
             (\<forall>d'. post_image (getPosts (local a) ! k') = Some (JStr d')
                    \<and> startsWith d' ''data:image'' \<longrightarrow>
                  (\<forall>imageId.
                     fst (fetch_and_save e d' (mig_db (before_post e a k'))) = Inr imageId \<longrightarrow>
                     getPosts (local (migrateOldData e a)) ! k'
                       = (getPosts (local a) ! k')\<lparr>post_images := Some (JArr [JStr imageId]),
                                                      post_image := None\<rparr>)
                \<and> (\<forall>err'.
                     fst (fetch_and_save e d' (mig_db (before_post e a k'))) = Inl err' \<longrightarrow>
                     getPosts (local (migrateOldData e a)) ! k' = getPosts (local a) ! k')
                \<and> mig_db (before_post e a (Suc k'))
                    = snd (fetch_and_save e d' (mig_db (before_post e a k'))))
           \<and> ((\<forall>d'. post_image (getPosts (local a) ! k') = Some (JStr d')
                   \<longrightarrow> \<not> startsWith d' ''data:image'')
                \<longrightarrow> getPosts (local (migrateOldData e a)) ! k' = getPosts (local a) ! k'
                  \<and> before_post e a (Suc k') = before_post e a k'))
       \<and> mig_db (before_post e a 0) = idb a
       \<and> idb (migrateOldData e a) = mig_db (before_post e a (length (getPosts (local a))))"
proof -
  from stored_array_post [OF assms(1,2), of e] obtain imgs' where
    st: "getPosts (local (migrateOldData e a)) ! k
           = (getPosts (local a) ! k)\<lparr>post_images := Some (JArr imgs')\<rparr>"
    and len: "length imgs' = length imgs"
    and entry: "\<forall>d'. imgs ! i = JStr d' \<and> startsWith d' ''data:image'' \<longrightarrow>
        (\<forall>err'. fst (fetch_and_save e d'
            (mig_db (snd (migrate_images e (take i imgs) (before_post e a k))))) = Inl err'
          \<longrightarrow> imgs' ! i = JStr d')"
    using assms(3) by blast
  from entry assms(4,5,6) have "imgs' ! i = JStr d" by blast
  with st len have 1:
    "\<exists>imgs'. post_images (getPosts (local (migrateOldData e a)) ! k) = Some (JArr imgs')
        \<and> length imgs' = length imgs \<and> imgs' ! i = JStr d"
    by simp
  have 2: "length (getPosts (local (migrateOldData e a))) = length (getPosts (local a))"
    by (rule stored_posts_length)
  have 5: "mig_db (before_post e a 0) = idb a"
    by (simp add: before_post_def)
  have 6: "idb (migrateOldData e a) = mig_db (before_post e a (length (getPosts (local a))))"
    by (rule idb_migrateOldData_before_post)
  show ?thesis
  proof (intro conjI)
    show "\<exists>imgs'. post_images (getPosts (local (migrateOldData e a)) ! k) = Some (JArr imgs')
        \<and> length imgs' = length imgs \<and> imgs' ! i = JStr d"
      by (rule 1)
  next
    show "length (getPosts (local (migrateOldData e a))) = length (getPosts (local a))"
      by (rule 2)
  next
    show "\<forall>k' < length (getPosts (local a)). \<forall>xs.
             post_images (getPosts (local a) ! k') = Some (JArr xs) \<longrightarrow>
             (\<exists>ys. getPosts (local (migrateOldData e a)) ! k'
                      = (getPosts (local a) ! k')\<lparr>post_images := Some (JArr ys)\<rparr>
                \<and> length ys = length xs
                \<and> (\<forall>j < length xs.
                     (\<not> is_inline (xs ! j) \<longrightarrow> ys ! j = xs ! j)
                   \<and> (\<forall>d'. xs ! j = JStr d' \<and> startsWith d' ''data:image'' \<longrightarrow>
                        (\<forall>imageId.
                           fst (fetch_and_save e d'
                             (mig_db (snd (migrate_images e (take j xs) (before_post e a k')))))
                             = Inr imageId \<longrightarrow> ys ! j = JStr imageId)
                      \<and> (\<forall>err'.
                           fst (fetch_and_save e d'
                             (mig_db (snd (migrate_images e (take j xs) (before_post e a k')))))
                             = Inl err' \<longrightarrow> ys ! j = JStr d'))
                   \<and> mig_db (snd (migrate_images e (take (Suc j) xs) (before_post e a k')))
                       = (if is_inline (xs ! j)
                          then snd (fetch_and_save e (str_of (xs ! j))
                                 (mig_db (snd (migrate_images e (take j xs) (before_post e a k')))))
                          else mig_db (snd (migrate_images e (take j xs) (before_post e a k')))))
                \<and> before_post e a (Suc k') = snd (migrate_images e xs (before_post e a k')))"
      by (intro allI impI) (rule stored_array_post)
  next
    show "\<forall>k' < length (getPosts (local a)).
             (\<forall>xs. post_images (getPosts (local a) ! k') \<noteq> Some (JArr xs)) \<longrightarrow>
             (\<forall>d'. post_image (getPosts (local a) ! k') = Some (JStr d')
                    \<and> startsWith d' ''data:image'' \<longrightarrow>
                  (\<forall>imageId.
                     fst (fetch_and_save e d' (mig_db (before_post e a k'))) = Inr imageId \<longrightarrow>
                     getPosts (local (migrateOldData e a)) ! k'
                       = (getPosts (local a) ! k')\<lparr>post_images := Some (JArr [JStr imageId]),
                                                      post_image := None\<rparr>)
                \<and> (\<forall>err'.
                     fst (fetch_and_save e d' (mig_db (before_post e a k'))) = Inl err' \<longrightarrow>
                     getPosts (local (migrateOldData e a)) ! k' = getPosts (local a) ! k')
                \<and> mig_db (before_post e a (Suc k'))
                    = snd (fetch_and_save e d' (mig_db (before_post e a k'))))
           \<and> ((\<forall>d'. post_image (getPosts (local a) ! k') = Some (JStr d')
                   \<longrightarrow> \<not> startsWith d' ''data:image'')
                \<longrightarrow> getPosts (local (migrateOldData e a)) ! k' = getPosts (local a) ! k'
                  \<and> before_post e a (Suc k') = before_post e a k')"
      by (intro allI impI) (rule stored_other_post)
  next
    show "mig_db (before_post e a 0) = idb a" by (rule 5)
  next
    show "idb (migrateOldData e a) = mig_db (before_post e a (length (getPosts (local a))))"
      by (rule 6)
  qed
qed

text \<open>The requests of the first two saves fail: the first two images of the
  first post stay inline, its third image and the legacy image of the next
  post are migrated, and the pass has used four database operations.\<close>

theorem failed_image_is_retained_witness:
  "0 < length (getPosts (local (ex_app [ex_post_three, ex_post_legacy])))
   \<and> post_images (getPosts (local (ex_app [ex_post_three, ex_post_legacy])) ! 0)
       = Some (JArr [JStr ex_inline, JStr ex_inline, JStr ex_inline])
   \<and> startsWith ex_inline ''data:image''
   \<and> fst (fetch_and_save ex_env_two_fail ex_inline
        (mig_db (snd (migrate_images ex_env_two_fail
           (take 0 [JStr ex_inline, JStr ex_inline, JStr ex_inline])
           (before_post ex_env_two_fail (ex_app [ex_post_three, ex_post_legacy]) 0)))))
       = Inl RequestError
   \<and> getPosts (local (migrateOldData ex_env_two_fail (ex_app [ex_post_three, ex_post_legacy])))
       = [ex_post_three\<lparr>post_images :=
            Some (JArr [JStr ex_inline, JStr ex_inline,
                        JStr (''img_'' @ show_nat 1700000000002 @ ''_k3x9q2m1z'')])\<rparr>,
          ex_post_legacy\<lparr>post_images :=
            Some (JArr [JStr (''img_'' @ show_nat 1700000000003 @ ''_k3x9q2m1z'')]),
            post_image := None\<rparr>]
   \<and> idb_ops (idb (migrateOldData ex_env_two_fail (ex_app [ex_post_three, ex_post_legacy]))) = 4"
proof -
  let ?a = "ex_app [ex_post_three, ex_post_legacy]"
  let ?e = ex_env_two_fail
  let ?imgs = "[JStr ex_inline, JStr ex_inline, JStr ex_inline]"
  have h1: "0 < length (getPosts (local ?a))"
    by (simp add: getPosts_def ex_app_def)
  have h2: "post_images (getPosts (local ?a) ! 0) = Some (JArr ?imgs)"
    by (simp add: getPosts_def ex_app_def ex_post_three_def)
  have h3: "0 < length ?imgs" by simp
  have h4: "?imgs ! 0 = JStr ex_inline" by simp
  have h5: "startsWith ex_inline ''data:image''" by (simp add: ex_inline_def)
  have h6: "fst (fetch_and_save ?e ex_inline
        (mig_db (snd (migrate_images ?e (take 0 ?imgs) (before_post ?e ?a 0)))))
      = Inl RequestError"
    by (simp add: run_defs ex_defs)
  have res: "getPosts (local (migrateOldData ?e ?a))
       = [ex_post_three\<lparr>post_images :=
            Some (JArr [JStr ex_inline, JStr ex_inline,
                        JStr (''img_'' @ show_nat 1700000000002 @ ''_k3x9q2m1z'')])\<rparr>,
          ex_post_legacy\<lparr>post_images :=
            Some (JArr [JStr (''img_'' @ show_nat 1700000000003 @ ''_k3x9q2m1z'')]),
            post_image := None\<rparr>]"
    by (simp add: run_defs ex_defs)
  have ops: "idb_ops (idb (migrateOldData ?e ?a)) = 4"
    by (simp add: run_defs ex_defs split_beta)
  from failed_image_is_retained [OF h1 h2 h3 h4 h5 h6] h1 h2 h5 h6 res ops
  show ?thesis by simp
qed

text \<open>
  C7, as amended. Let the post at index \<open>k\<close> have no image array and a legacy
  field \<open>image\<close> holding inline data, let fetching the data give the blob \<open>b\<close>,
  and let the database operation started when the loop gets there complete.
  Then the stored post after the migration is the original with \<open>images\<close> set
  to the one-element array of the generated identifier and with the legacy
  field removed; the blob \<open>b\<close> is stored under that identifier when the loop
  leaves the post, and the identifier is still a key of the database at the end.
\<close>

theorem legacy_image_converted:
  assumes "k < length (getPosts (local a))"
    and "p = getPosts (local a) ! k"
    and "\<forall>imgs. post_images p \<noteq> Some (JArr imgs)"
    and "post_image p = Some (JStr d)"
    and "startsWith d ''data:image''"
    and "fetch_blob e d = Some b"
    and "n = idb_ops (mig_db (before_post e a k))"
    and "idb_result e n = Completed"
    and "imageId = ''img_'' @ show_nat (date_now e n) @ ''_'' @ random36 e n"
  shows "getPosts (local (migrateOldData e a)) ! k
           = p\<lparr>post_images := Some (JArr [JStr imageId]), post_image := None\<rparr>
       \<and> objects (mig_db (snd (migrate_post e p (before_post e a k)))) imageId = Some b
       \<and> imageId \<in> dom (objects (idb (migrateOldData e a)))"
proof -
  let ?m = "before_post e a k"
  have na: "image_array p = None"
    using assms(3) by (auto simp: image_array_def split: option.splits jv.splits)
  have li: "legacy_inline p = Some d"
    using assms(4,5) by (simp add: legacy_inline_def)
  have fs: "fetch_and_save e d (mig_db ?m)
      = (Inr imageId, (mig_db ?m)\<lparr>idb_ops := Suc n, objects := (objects (mig_db ?m))(imageId \<mapsto> b)\<rparr>)"
    using assms(6,7,8,9) by (simp add: fetch_and_save_def saveImageBlob_def Let_def)
  have mp: "migrate_post e p ?m
      = (p\<lparr>post_images := Some (JArr [JStr imageId]), post_image := None\<rparr>,
         ?m\<lparr>mig_db := (mig_db ?m)\<lparr>idb_ops := Suc n, objects := (objects (mig_db ?m))(imageId \<mapsto> b)\<rparr>,
             migrationCount := migrationCount ?m + 1\<rparr>)"
    by (simp add: migrate_post_legacy [OF na li] fs)
  have 1: "getPosts (local (migrateOldData e a)) ! k
      = p\<lparr>post_images := Some (JArr [JStr imageId]), post_image := None\<rparr>"
    using stored_post_nth [OF assms(1), of e] assms(2) mp by simp
  have 2: "objects (mig_db (snd (migrate_post e p ?m))) imageId = Some b"
    by (simp add: mp)
  then have "imageId \<in> dom (objects (mig_db (snd (migrate_post e p ?m))))" by blast
  with dom_after_post [OF assms(1), of e] assms(2)
  have 3: "imageId \<in> dom (objects (idb (migrateOldData e a)))" by blast
  from 1 2 3 show ?thesis by simp
qed

text \<open>The legacy post at index 1, reached after two saves.\<close>

theorem legacy_image_converted_witness:
  "1 < length (getPosts (local (ex_app [ex_post_array, ex_post_legacy])))
   \<and> ex_post_legacy = getPosts (local (ex_app [ex_post_array, ex_post_legacy])) ! 1
   \<and> (\<forall>imgs. post_images ex_post_legacy \<noteq> Some (JArr imgs))
   \<and> post_image ex_post_legacy = Some (JStr ex_inline)
   \<and> fetch_blob ex_env ex_inline = Some [65, 66, 67]
   \<and> 2 = idb_ops (mig_db (before_post ex_env (ex_app [ex_post_array, ex_post_legacy]) 1))
   \<and> idb_result ex_env 2 = Completed
   \<and> getPosts (local (migrateOldData ex_env (ex_app [ex_post_array, ex_post_legacy]))) ! 1
       = ex_post_legacy\<lparr>post_images :=
            Some (JArr [JStr (''img_'' @ show_nat 1700000000002 @ ''_k3x9q2m1z'')]),
            post_image := None\<rparr>
   \<and> ''img_'' @ show_nat 1700000000002 @ ''_k3x9q2m1z''
       \<in> dom (objects (idb (migrateOldData ex_env (ex_app [ex_post_array, ex_post_legacy]))))"
proof -
  let ?a = "ex_app [ex_post_array, ex_post_legacy]"
  have h1: "1 < length (getPosts (local ?a))"
    by (simp add: getPosts_def ex_app_def)
  have h2: "ex_post_legacy = getPosts (local ?a) ! 1"
    by (simp add: getPosts_def ex_app_def)
  have h3: "\<forall>imgs. post_images ex_post_legacy \<noteq> Some (JArr imgs)"
    by (simp add: ex_post_legacy_def)
  have h4: "post_image ex_post_legacy = Some (JStr ex_inline)"
    by (simp add: ex_post_legacy_def)
  have h5: "startsWith ex_inline ''data:image''" by (simp add: ex_inline_def)
  have h6: "fetch_blob ex_env ex_inline = Some [65, 66, 67]"
    by (simp add: ex_env_def)
  have h7: "2 = idb_ops (mig_db (before_post ex_env ?a 1))"
    by (simp add: run_defs ex_defs)
  have h8: "idb_result ex_env 2 = Completed" by (simp add: ex_env_def)
  have h9: "''img_'' @ show_nat 1700000000002 @ ''_k3x9q2m1z''
      = ''img_'' @ show_nat (date_now ex_env 2) @ ''_'' @ random36 ex_env 2"
    by (simp add: ex_env_def)
  from legacy_image_converted [OF h1 h2 h3 h4 h5 h6 h7 h8 h9] h1 h2 h3 h4 h6 h7 h8
  show ?thesis by simp
qed

text \<open>
  The claim as it was stated fails. A post that has an image array, here an
  empty one, takes the first branch of the loop body and its legacy field is
  neither converted nor removed, although fetching and saving would succeed;
  and a legacy post is left as it is when the database cannot be opened.
\<close>

theorem legacy_image_converted_counterexample:
  "post_image ex_post_both = Some (JStr ex_inline)
   \<and> startsWith ex_inline ''data:image''
   \<and> fetch_blob ex_env ex_inline = Some [65, 66, 67]
   \<and> idb_result ex_env 0 = Completed
   \<and> migrateOldData ex_env (ex_app [ex_post_both]) = ex_app [ex_post_both]
   \<and> post_image ex_post_legacy = Some (JStr ex_inline)
   \<and> getPosts (local (migrateOldData ex_env_closed (ex_app [ex_post_legacy])))
       = [ex_post_legacy]
   \<and> objects (idb (migrateOldData ex_env_closed (ex_app [ex_post_legacy]))) = Map.empty"
  by (simp add: run_defs ex_defs)

section \<open>Resolving an image reference\<close>

text \<open>
  C6, as amended. In every state the application reaches: a string that starts
  with \<open>data:image\<close> is returned as it is and nothing changes; a reference
  that is not inline data and names no stored blob resolves to the empty
  string; so does a reference that is not cached when the database operation
  does not complete; and the identifier of a stored blob, when it is cached or
  the database operation completes, resolves to an object URL that is in the
  cache afterwards, and resolving it again returns the same URL and leaves
  the state as it is.
\<close>

theorem getImageUrl_results:
  assumes "reachable a"
  shows "(\<forall>d. startsWith d ''data:image'' \<longrightarrow> getImageUrl e (JStr d) a = (d, a))
       \<and> (\<not> is_inline imageId \<and> (\<forall>k. imageId = JStr k \<longrightarrow> objects (idb a) k = None)
            \<longrightarrow> fst (getImageUrl e imageId a) = [])
       \<and> (\<not> is_inline imageId \<and> imageUrlCache a imageId = None
            \<and> idb_result e (idb_ops (idb a)) \<noteq> Completed
            \<longrightarrow> fst (getImageUrl e imageId a) = [])
       \<and> (\<forall>k b. imageId = JStr k \<and> \<not> is_inline imageId \<and> objects (idb a) k = Some b
              \<and> (imageUrlCache a imageId = None \<longrightarrow> idb_result e (idb_ops (idb a)) = Completed)
            \<longrightarrow> startsWith (fst (getImageUrl e imageId a)) ''blob:''
              \<and> imageUrlCache (snd (getImageUrl e imageId a)) imageId
                  = Some (fst (getImageUrl e imageId a))
              \<and> getImageUrl e' imageId (snd (getImageUrl e imageId a))
                  = getImageUrl e imageId a)"

proof -
  have ok: "cache_ok a" by (rule reachable_cache_ok [OF assms])
  show ?thesis
  proof (intro conjI allI impI)
    fix d
    assume "startsWith d ''data:image''"
    then show "getImageUrl e (JStr d) a = (d, a)" by (rule resolve_inline [OF ok])
  next
    assume h: "\<not> is_inline imageId \<and> (\<forall>k. imageId = JStr k \<longrightarrow> objects (idb a) k = None)"
    then have "\<not> is_inline imageId" and "\<forall>k. imageId = JStr k \<longrightarrow> objects (idb a) k = None"
      by simp_all
    then show "fst (getImageUrl e imageId a) = []" by (rule resolve_absent [OF ok])
  next
    assume h: "\<not> is_inline imageId \<and> imageUrlCache a imageId = None
               \<and> idb_result e (idb_ops (idb a)) \<noteq> Completed"
    then have io: "idb_result e (idb_ops (idb a)) \<noteq> Completed" by simp
    from getImageBlob_not_completed [OF io, of imageId] obtain err where
      "fst (getImageBlob e imageId (idb a)) = Inl err" by blast
    with h show "fst (getImageUrl e imageId a) = []"
      by (simp add: resolve_uncached_failure)
  next
    fix k b
    assume h: "imageId = JStr k \<and> \<not> is_inline imageId \<and> objects (idb a) k = Some b
              \<and> (imageUrlCache a imageId = None \<longrightarrow> idb_result e (idb_ops (idb a)) = Completed)"
    have D: "startsWith (fst (getImageUrl e imageId a)) ''blob:''
           \<and> imageUrlCache (snd (getImageUrl e imageId a)) imageId
               = Some (fst (getImageUrl e imageId a))
           \<and> getImageUrl e' imageId (snd (getImageUrl e imageId a)) = getImageUrl e imageId a"
    proof (cases "imageUrlCache a imageId")
      case (Some u)
      with ok have "startsWith u ''blob:''" unfolding cache_ok_def by blast
      with Some show ?thesis by (simp add: resolve_cached)
    next
      case None
      from h have k: "imageId = JStr k" and nk: "\<not> startsWith k ''data:image''"
        and pr: "objects (idb a) k = Some b"
        by (auto simp: is_inline_def)
      from h None have io: "idb_result e (idb_ops (idb a)) = Completed" by simp
      from None k have nc: "imageUrlCache a (JStr k) = None" by simp
      show ?thesis
        unfolding k resolve_present [OF nk nc pr io]
        by (simp add: resolve_cached)
    qed
    from D show "startsWith (fst (getImageUrl e imageId a)) ''blob:''" by simp
    from D show "imageUrlCache (snd (getImageUrl e imageId a)) imageId
                   = Some (fst (getImageUrl e imageId a))" by simp
    from D show "getImageUrl e' imageId (snd (getImageUrl e imageId a)) = getImageUrl e imageId a"
      by simp
  qed
qed

text \<open>On a freshly started application whose database holds one blob.\<close>

theorem getImageUrl_results_witness:
  "reachable ex_app_stored
   \<and> getImageUrl ex_env (JStr ex_inline) ex_app_stored = (ex_inline, ex_app_stored)
   \<and> fst (getImageUrl ex_env (JStr ''img_0_missing'') ex_app_stored) = []
   \<and> fst (getImageUrl ex_env_closed (JStr ''img_1700000000000_k3x9q2m1z'') ex_app_stored) = []
   \<and> fst (getImageUrl ex_env (JStr ''img_1700000000000_k3x9q2m1z'') ex_app_stored)
       = ''blob:http://localhost/'' @ show_nat 0
   \<and> imageUrlCache (snd (getImageUrl ex_env (JStr ''img_1700000000000_k3x9q2m1z'') ex_app_stored))
        (JStr ''img_1700000000000_k3x9q2m1z'')
       = Some (''blob:http://localhost/'' @ show_nat 0)
   \<and> getImageUrl ex_env_closed (JStr ''img_1700000000000_k3x9q2m1z'')
        (snd (getImageUrl ex_env (JStr ''img_1700000000000_k3x9q2m1z'') ex_app_stored))
       = getImageUrl ex_env (JStr ''img_1700000000000_k3x9q2m1z'') ex_app_stored"
proof -
  let ?id = "''img_1700000000000_k3x9q2m1z''"
  have r: "reachable ex_app_stored"
    by (rule reachable.start) (simp add: ex_app_stored_def)
  have inl: "startsWith ex_inline ''data:image''" by (simp add: ex_inline_def)
  have missing: "\<not> is_inline (JStr ''img_0_missing'')
      \<and> (\<forall>k. JStr ''img_0_missing'' = JStr k \<longrightarrow> objects (idb ex_app_stored) k = None)"
    by (simp add: is_inline_def ex_app_stored_def)
  have closed: "\<not> is_inline (JStr ?id) \<and> imageUrlCache ex_app_stored (JStr ?id) = None
      \<and> idb_result ex_env_closed (idb_ops (idb ex_app_stored)) \<noteq> Completed"
    by (simp add: is_inline_def ex_app_stored_def ex_env_closed_def)
  have present: "JStr ?id = JStr ?id \<and> \<not> is_inline (JStr ?id)
      \<and> objects (idb ex_app_stored) ?id = Some [65, 66, 67]
      \<and> (imageUrlCache ex_app_stored (JStr ?id) = None
           \<longrightarrow> idb_result ex_env (idb_ops (idb ex_app_stored)) = Completed)"
    by (simp add: is_inline_def ex_app_stored_def ex_env_def)
  have url: "fst (getImageUrl ex_env (JStr ?id) ex_app_stored)
      = ''blob:http://localhost/'' @ show_nat 0"
    by (simp add: getImageUrl_def getImageBlob_def is_inline_def ex_app_stored_def ex_env_def
        Let_def)
  note t1 = getImageUrl_results [OF r, of ex_env "JStr ''img_0_missing''" ex_env]
  note t2 = getImageUrl_results [OF r, of ex_env_closed "JStr ?id" ex_env]
  note t3 = getImageUrl_results [OF r, of ex_env "JStr ?id" ex_env_closed]
  note a = t1 [THEN conjunct1, THEN spec, THEN mp, OF inl]
  note b = t1 [THEN conjunct2, THEN conjunct1, THEN mp, OF missing]
  note c = t2 [THEN conjunct2, THEN conjunct2, THEN conjunct1, THEN mp, OF closed]
  note d = t3 [THEN conjunct2, THEN conjunct2, THEN conjunct2, THEN spec, THEN spec, THEN mp,
    OF present]
  from r a b c d url show ?thesis by simp
qed

text \<open>
  The claim as it was stated fails. The blob is stored, but the database cannot
  be opened, so \<open>getImageBlob\<close> rejects and the result is the empty string.
\<close>

theorem getImageUrl_results_counterexample:
  "reachable ex_app_stored
   \<and> objects (idb ex_app_stored) ''img_1700000000000_k3x9q2m1z'' = Some [65, 66, 67]
   \<and> fst (getImageUrl ex_env_closed (JStr ''img_1700000000000_k3x9q2m1z'') ex_app_stored) = []"
proof -
  have "reachable ex_app_stored"
    by (rule reachable.start) (simp add: ex_app_stored_def)
  then show ?thesis
    by (simp add: getImageUrl_def getImageBlob_def is_inline_def ex_defs Let_def)
qed

end
